theory Spec2Isabelle
  imports Complex_Main "HOL-Library.Log_Nat"
begin

section \<open>The research-approval workflow of \<^verbatim>\<open>backend/research_agent.py\<close>\<close>

text \<open>
  The development embeds the class \<^verbatim>\<open>ResearchAgent\<close> and its data model. Everything the
  Python code obtains from outside is an explicit argument of the operation that reads it:
  the identifier produced by \<^verbatim>\<open>uuid.uuid4()\<close>, every reading of \<^verbatim>\<open>datetime.now()\<close>, and the
  outcome of the HTTP exchange with the completion service.
\<close>

subsection \<open>Strings, timestamps, dictionaries\<close>

text \<open>
  A Python \<^verbatim>\<open>str\<close> is a sequence of Unicode code points; a code point is a natural number.
  \<open>lit\<close> embeds an ASCII literal of the source text.
\<close>

type_synonym pystr = "nat list"

definition lit :: "string \<Rightarrow> pystr" where
  "lit s = map of_char s"

text \<open>
  A naive \<^verbatim>\<open>datetime\<close> is its count of microseconds on the local wall clock; subtracting two
  of them gives a \<^verbatim>\<open>timedelta\<close>, again a count of microseconds, and \<^verbatim>\<open>total_seconds()\<close>
  divides by \<open>10\<^sup>6\<close>, a single quotient, read here as the real number it denotes.
\<close>

type_synonym datetime = int

definition total_seconds :: "int \<Rightarrow> real" where
  "total_seconds d = real_of_int d / 1000000"

subsection \<open>Floats\<close>

text \<open>
  A Python \<^verbatim>\<open>float\<close> is an IEEE 754 binary64 number, here the real number it denotes. Every
  operation yields the double nearest to the exact result, a tie going to the even
  significand. \<open>binade x\<close> is the exponent \<open>e\<close> with \<open>2\<^sup>e \<le> x < 2\<^sup>e\<^sup>+\<^sup>1\<close> for a positive \<open>x\<close>,
  computed from the bit length of an integer part. The spacing of the doubles around \<open>x\<close>
  is \<open>2\<close> to the power \<open>binade x - 52\<close>, and never less than \<open>2\<^sup>-\<^sup>1\<^sup>0\<^sup>7\<^sup>4\<close>, the spacing of the
  subnormal numbers. Magnitudes from \<open>2\<^sup>1\<^sup>0\<^sup>2\<^sup>4\<close> on have no double; none arises here, a \<^verbatim>\<open>str\<close>
  having fewer than \<open>2\<^sup>6\<^sup>3\<close> code points.
\<close>

definition round_half_even :: "real \<Rightarrow> int" where
  "round_half_even y =
     (let f = \<lfloor>y\<rfloor>; r = y - of_int f
      in if r < 1 / 2 then f else if 1 / 2 < r then f + 1 else if even f then f else f + 1)"

definition binade :: "real \<Rightarrow> int" where
  "binade x =
     (if 1 \<le> x then bitlen \<lfloor>x\<rfloor> - 1
      else (let k = bitlen \<lfloor>1 / x\<rfloor> in if x * 2 powi k = 2 then 1 - k else - k))"

definition round_double :: "real \<Rightarrow> real" where
  "round_double x =
     (if x = 0 then 0
      else (let e = max (binade \<bar>x\<bar> - 52) (- 1074)
            in sgn x * of_int (round_half_even (\<bar>x\<bar> / 2 powi e)) * 2 powi e))"

text \<open>
  \<^verbatim>\<open>a / b\<close> on two \<^verbatim>\<open>int\<close>s is the double nearest to the exact quotient, and \<^verbatim>\<open>x * y\<close> on two
  \<^verbatim>\<open>float\<close>s the double nearest to the exact product. A literal such as \<^verbatim>\<open>0.008\<close> is the double
  nearest to the decimal fraction, \<open>round_double (8 / 1000)\<close>.
\<close>

definition int_truediv :: "nat \<Rightarrow> nat \<Rightarrow> real" where
  "int_truediv a b = round_double (real a / real b)"

definition float_mul :: "real \<Rightarrow> real \<Rightarrow> real" where
  "float_mul x y = round_double (x * y)"

text \<open>
  Values stored in the dictionaries the code builds. A \<^verbatim>\<open>dict\<close> is an association list in
  insertion order, as Python keeps it; \<open>map_of\<close> is the lookup.
\<close>

datatype pyval =
    PStr pystr
  | PFloat real
  | PTime datetime
  | PDict "(pystr \<times> pyval) list"

type_synonym pydict = "(pystr \<times> pyval) list"

text \<open>\<^verbatim>\<open>d[k] = v\<close>: an existing key keeps its position, a new key goes to the end.\<close>

fun dict_set :: "('k \<times> 'v) list \<Rightarrow> 'k \<Rightarrow> 'v \<Rightarrow> ('k \<times> 'v) list" where
  "dict_set [] k v = [(k, v)]"
| "dict_set ((k', v') # d) k v = (if k' = k then (k, v) # d else (k', v') # dict_set d k v)"

text \<open>\<^verbatim>\<open>d.values()\<close>, in insertion order.\<close>

definition dict_values :: "('k \<times> 'v) list \<Rightarrow> 'v list" where
  "dict_values d = map snd d"

subsection \<open>\<^verbatim>\<open>str.split()\<close> and \<^verbatim>\<open>str.join\<close>\<close>

text \<open>
  The code points for which \<^verbatim>\<open>str.isspace\<close> holds: these are the separators of
  \<^verbatim>\<open>str.split()\<close> called without an argument.
\<close>

definition isspace :: "nat \<Rightarrow> bool" where
  "isspace c \<longleftrightarrow>
     (9 \<le> c \<and> c \<le> 13) \<or> (28 \<le> c \<and> c \<le> 32) \<or> c = 133 \<or> c = 160 \<or> c = 5760 \<or>
     (8192 \<le> c \<and> c \<le> 8202) \<or> c = 8232 \<or> c = 8233 \<or> c = 8239 \<or> c = 8287 \<or> c = 12288"

text \<open>
  \<^verbatim>\<open>s.split()\<close>: the maximal runs of non-whitespace code points, left to right. The first
  argument of the scan is the word collected so far.
\<close>

fun split_scan :: "pystr \<Rightarrow> pystr \<Rightarrow> pystr list" where
  "split_scan w [] = (if w = [] then [] else [w])"
| "split_scan w (c # cs) =
     (if isspace c then (if w = [] then split_scan [] cs else w # split_scan [] cs)
      else split_scan (w @ [c]) cs)"

definition py_split :: "pystr \<Rightarrow> pystr list" where
  "py_split s = split_scan [] s"

fun py_join :: "pystr \<Rightarrow> pystr list \<Rightarrow> pystr" where
  "py_join sep [] = []"
| "py_join sep [x] = x"
| "py_join sep (x # y # ys) = x @ sep @ py_join sep (y # ys)"

text \<open>
  The number of words read off the text itself: a word starts at every non-whitespace code
  point that is first in the text or follows a whitespace code point. The flag says whether
  the scan is inside a word.
\<close>

fun word_starts :: "bool \<Rightarrow> pystr \<Rightarrow> nat" where
  "word_starts inw [] = 0"
| "word_starts inw (c # cs) =
     (if isspace c then word_starts False cs
      else (if inw then 0 else 1) + word_starts True cs)"

definition word_count :: "pystr \<Rightarrow> nat" where
  "word_count s = word_starts False s"

subsection \<open>Data model\<close>

datatype ResearchStatus = PROPOSED | APPROVED | DENIED | IN_PROGRESS | COMPLETED | FAILED

text \<open>\<^verbatim>\<open>str(status)\<close> of a plain \<^verbatim>\<open>Enum\<close> member, as an f-string renders it.\<close>

fun str_status :: "ResearchStatus \<Rightarrow> pystr" where
  "str_status PROPOSED = lit ''ResearchStatus.PROPOSED''"
| "str_status APPROVED = lit ''ResearchStatus.APPROVED''"
| "str_status DENIED = lit ''ResearchStatus.DENIED''"
| "str_status IN_PROGRESS = lit ''ResearchStatus.IN_PROGRESS''"
| "str_status COMPLETED = lit ''ResearchStatus.COMPLETED''"
| "str_status FAILED = lit ''ResearchStatus.FAILED''"

text \<open>A suggestion is a \<^verbatim>\<open>Dict[str, str]\<close>.\<close>

type_synonym suggestion = "(pystr \<times> pystr) list"

text \<open>
  The dataclass \<^verbatim>\<open>ResearchRequest\<close>. The field \<^verbatim>\<open>id\<close> is written \<open>id'\<close>, since \<open>id\<close> is the
  identity function of HOL.
\<close>

record ResearchRequest =
  id' :: pystr
  query :: pystr
  original_context :: pystr
  advisor_suggestions :: "suggestion list"
  refined_query :: "pystr option"
  status :: ResearchStatus
  created_at :: datetime
  approved_at :: "datetime option"
  completed_at :: "datetime option"
  results :: "pydict option"
  cost_estimate :: "real option"

text \<open>The attributes \<^verbatim>\<open>__init__\<close> gives a \<^verbatim>\<open>ResearchAgent\<close>.\<close>

record ResearchAgent =
  api_key :: pystr
  base_url :: pystr
  pending_requests :: "(pystr \<times> ResearchRequest) list"
  research_model :: pystr
  cost_per_1k_tokens :: real

definition ResearchAgent_init :: "pystr \<Rightarrow> ResearchAgent" where
  "ResearchAgent_init openrouter_api_key =
     \<lparr> api_key = openrouter_api_key,
       base_url = lit ''https://openrouter.ai/api/v1/chat/completions'',
       pending_requests = [],
       research_model = lit ''openai/gpt-5-nano'',
       cost_per_1k_tokens = round_double (8 / 1000) \<rparr>"

text \<open>
  Exceptions are values. \<open>str_error\<close> is \<^verbatim>\<open>str(e)\<close>: the message, and for a \<^verbatim>\<open>KeyError\<close>
  the quoted key.
\<close>

datatype error = ValueError pystr | KeyError pystr | TypeError pystr | Exception pystr

fun str_error :: "error \<Rightarrow> pystr" where
  "str_error (ValueError m) = m"
| "str_error (KeyError k) = lit [CHR 0x27] @ k @ lit [CHR 0x27]"
| "str_error (TypeError m) = m"
| "str_error (Exception m) = m"

text \<open>\<^verbatim>\<open>request.field = v\<close> on the request the registry holds under \<open>k\<close>.\<close>

definition store_request :: "ResearchAgent \<Rightarrow> pystr \<Rightarrow> ResearchRequest \<Rightarrow> ResearchAgent" where
  "store_request ag k r = ag\<lparr>pending_requests := dict_set (pending_requests ag) k r\<rparr>"

subsection \<open>\<^verbatim>\<open>propose_research\<close>\<close>

text \<open>
  \<^verbatim>\<open>_refine_query_with_suggestions\<close> first joins one line per suggestion,
  \<^verbatim>\<open>f"- {s['advisor']}: {s['suggestion']}"\<close>, which raises \<^verbatim>\<open>KeyError\<close> at the first
  suggestion that lacks a key. The joined text goes into a prompt that the function then
  discards.
\<close>

fun suggestion_lines :: "suggestion list \<Rightarrow> error + pystr list" where
  "suggestion_lines [] = Inr []"
| "suggestion_lines (s # ss) =
     (case map_of s (lit ''advisor'') of
        None \<Rightarrow> Inl (KeyError (lit ''advisor''))
      | Some a \<Rightarrow>
          (case map_of s (lit ''suggestion'') of
             None \<Rightarrow> Inl (KeyError (lit ''suggestion''))
           | Some t \<Rightarrow>
               (case suggestion_lines ss of
                  Inl e \<Rightarrow> Inl e
                | Inr ls \<Rightarrow> Inr ((lit ''- '' @ a @ lit '': '' @ t) # ls))))"

text \<open>The loop \<^verbatim>\<open>for suggestion in suggestions: refined += f"- {suggestion['suggestion']}\n"\<close>.\<close>

fun append_bullets :: "pystr \<Rightarrow> suggestion list \<Rightarrow> error + pystr" where
  "append_bullets refined [] = Inr refined"
| "append_bullets refined (s # ss) =
     (case map_of s (lit ''suggestion'') of
        None \<Rightarrow> Inl (KeyError (lit ''suggestion''))
      | Some t \<Rightarrow> append_bullets (refined @ lit ''- '' @ t @ [10]) ss)"

definition areas_heading :: pystr where
  "areas_heading =
     [10, 10] @ lit ''Specific areas to investigate based on advisor input:'' @ [10]"

definition refine_query_with_suggestions ::
    "pystr \<Rightarrow> pystr \<Rightarrow> suggestion list \<Rightarrow> error + pystr" where
  "refine_query_with_suggestions q context suggestions =
     (case suggestion_lines suggestions of
        Inl e \<Rightarrow> Inl e
      | Inr ls \<Rightarrow>
          (let suggestion_text = py_join [10] ls;
               refined = q @ areas_heading
           in append_bullets refined suggestions))"

text \<open>
  \<^verbatim>\<open>propose_research\<close>: \<open>uid\<close> is the string of the generated UUID and \<open>now\<close> the clock
  reading that \<^verbatim>\<open>__post_init__\<close> stores in \<^verbatim>\<open>created_at\<close>.
\<close>

definition propose_research ::
    "ResearchAgent \<Rightarrow> pystr \<Rightarrow> pystr \<Rightarrow> suggestion list \<Rightarrow> pystr \<Rightarrow> datetime
       \<Rightarrow> error + (ResearchRequest \<times> ResearchAgent)" where
  "propose_research ag q context suggestions uid now =
     (case refine_query_with_suggestions q context suggestions of
        Inl e \<Rightarrow> Inl e
      | Inr refined \<Rightarrow>
          (let estimated_tokens = length (py_split refined) * 3;
               cost = float_mul (int_truediv estimated_tokens 1000) (cost_per_1k_tokens ag);
               request = \<lparr> id' = uid, query = q, original_context = context,
                           advisor_suggestions = suggestions, refined_query = Some refined,
                           status = PROPOSED, created_at = now, approved_at = None,
                           completed_at = None, results = None, cost_estimate = Some cost \<rparr>
           in Inr (request, store_request ag uid request)))"

subsection \<open>\<^verbatim>\<open>approve_research\<close> and \<^verbatim>\<open>deny_research\<close>\<close>

definition approve_research :: "ResearchAgent \<Rightarrow> pystr \<Rightarrow> datetime \<Rightarrow> bool \<times> ResearchAgent" where
  "approve_research ag request_id now =
     (case map_of (pending_requests ag) request_id of
        None \<Rightarrow> (False, ag)
      | Some request \<Rightarrow>
          if status request \<noteq> PROPOSED then (False, ag)
          else (True, store_request ag request_id
                        (request\<lparr>status := APPROVED, approved_at := Some now\<rparr>)))"

text \<open>\<^verbatim>\<open>if reason:\<close> holds for a reason that is neither \<^verbatim>\<open>None\<close> nor the empty string.\<close>

definition deny_research ::
    "ResearchAgent \<Rightarrow> pystr \<Rightarrow> pystr option \<Rightarrow> bool \<times> ResearchAgent" where
  "deny_research ag request_id reason =
     (case map_of (pending_requests ag) request_id of
        None \<Rightarrow> (False, ag)
      | Some request \<Rightarrow>
          if status request \<noteq> PROPOSED then (False, ag)
          else (True, store_request ag request_id
                        (case reason of
                           None \<Rightarrow> request\<lparr>status := DENIED\<rparr>
                         | Some why \<Rightarrow>
                             if why = [] then request\<lparr>status := DENIED\<rparr>
                             else request\<lparr>status := DENIED,
                                    results := Some [(lit ''denial_reason'', PStr why)]\<rparr>)))"

subsection \<open>\<^verbatim>\<open>execute_approved_research\<close>\<close>

text \<open>
  What the HTTP exchange of \<^verbatim>\<open>_conduct_research\<close> comes to: a 200 response whose body
  holds the generated text at \<^verbatim>\<open>choices[0].message.content\<close> and perhaps a \<^verbatim>\<open>usage\<close> entry;
  a response with another status and its body text; or an exception of class
  \<^verbatim>\<open>Exception\<close> raised on the way (by the transport, the JSON decoder or a subscript), of
  which the code only uses \<^verbatim>\<open>str(e)\<close>. Signals outside that class, such as the cancellation
  of the running task, are not part of the model.
\<close>

datatype exchange =
    Ok200 pystr "pyval option"
  | NonOk pystr
  | Raises pystr

text \<open>
  \<^verbatim>\<open>_conduct_research\<close>; \<open>t_stamp\<close> is the clock reading behind \<^verbatim>\<open>"timestamp"\<close>, which the source
  stores in ISO format. \<^verbatim>\<open>result.get('usage', {})\<close> defaults to the empty dictionary.
\<close>

definition conduct_research ::
    "ResearchAgent \<Rightarrow> pystr option \<Rightarrow> exchange \<Rightarrow> datetime \<Rightarrow> error + pydict" where
  "conduct_research ag q ex t_stamp =
     (case ex of
        Ok200 research_content usage \<Rightarrow>
          Inr [(lit ''research'', PStr research_content),
               (lit ''model_used'', PStr (research_model ag)),
               (lit ''timestamp'', PTime t_stamp),
               (lit ''tokens_used'', (case usage of None \<Rightarrow> PDict [] | Some u \<Rightarrow> u))]
      | NonOk error_text \<Rightarrow> Inl (Exception (lit ''Research API error: '' @ error_text))
      | Raises m \<Rightarrow> Inl (Exception m))"

definition failed_response :: "pystr \<Rightarrow> error \<Rightarrow> pydict" where
  "failed_response request_id e =
     [(lit ''status'', PStr (lit ''failed'')),
      (lit ''request_id'', PStr request_id),
      (lit ''error'', PStr (str_error e))]"

definition success_response :: "pystr \<Rightarrow> pydict \<Rightarrow> real \<Rightarrow> pydict" where
  "success_response request_id research_results secs =
     [(lit ''status'', PStr (lit ''success'')),
      (lit ''request_id'', PStr request_id),
      (lit ''results'', PDict research_results),
      (lit ''execution_time'', PFloat secs)]"

text \<open>What \<^verbatim>\<open>datetime - None\<close> raises while the success response is built.\<close>

definition sub_none_error :: error where
  "sub_none_error =
     TypeError (lit ''unsupported operand type(s) for -: '' @ lit [CHR 0x27] @
                lit ''datetime.datetime'' @ lit [CHR 0x27] @ lit '' and '' @
                lit [CHR 0x27] @ lit ''NoneType'' @ lit [CHR 0x27])"

text \<open>
  The body of \<^verbatim>\<open>execute_approved_research\<close>, statement by statement. It yields what the call
  returns or raises, and the successive states of the agent: one after the assignment of
  \<^verbatim>\<open>IN_PROGRESS\<close>, one after the assignments of the \<^verbatim>\<open>try\<close> block, and one after those of the
  handler when the subtraction in the \<^verbatim>\<open>return\<close> expression raises. \<open>t_done\<close> is the clock
  reading stored in \<^verbatim>\<open>completed_at\<close>.
\<close>

definition execute_steps ::
    "ResearchAgent \<Rightarrow> pystr \<Rightarrow> exchange \<Rightarrow> datetime \<Rightarrow> datetime
       \<Rightarrow> (error + pydict) \<times> ResearchAgent list" where
  "execute_steps ag request_id ex t_stamp t_done =
     (case map_of (pending_requests ag) request_id of
        None \<Rightarrow> (Inl (ValueError (lit ''Request '' @ request_id @ lit '' not found'')), [])
      | Some request \<Rightarrow>
          if status request \<noteq> APPROVED
          then (Inl (ValueError (lit ''Request '' @ request_id @
                       lit '' is not approved. Status: '' @ str_status (status request))), [])
          else
            (let r1 = request\<lparr>status := IN_PROGRESS\<rparr>;
                 ag1 = store_request ag request_id r1
             in case conduct_research ag (refined_query r1) ex t_stamp of
                  Inl e \<Rightarrow>
                    (Inr (failed_response request_id e),
                     [ag1, store_request ag1 request_id
                             (r1\<lparr>status := FAILED,
                                 results := Some [(lit ''error'', PStr (str_error e))]\<rparr>)])
                | Inr research_results \<Rightarrow>
                    (let r2 = r1\<lparr>status := COMPLETED, completed_at := Some t_done,
                                  results := Some research_results\<rparr>;
                         ag2 = store_request ag1 request_id r2
                     in case approved_at r2 of
                          Some t_appr \<Rightarrow>
                            (Inr (success_response request_id research_results
                                    (total_seconds (t_done - t_appr))),
                             [ag1, ag2])
                        | None \<Rightarrow>
                            (Inr (failed_response request_id sub_none_error),
                             [ag1, ag2, store_request ag2 request_id
                                (r2\<lparr>status := FAILED,
                                    results := Some [(lit ''error'',
                                                 PStr (str_error sub_none_error))]\<rparr>)]))))"

text \<open>The call itself: the result, and the agent as the last assignment leaves it.\<close>

definition execute_approved_research ::
    "ResearchAgent \<Rightarrow> pystr \<Rightarrow> exchange \<Rightarrow> datetime \<Rightarrow> datetime
       \<Rightarrow> (error + pydict) \<times> ResearchAgent" where
  "execute_approved_research ag request_id ex t_stamp t_done =
     (case execute_steps ag request_id ex t_stamp t_done of
        (res, steps) \<Rightarrow> (res, last (ag # steps)))"

subsection \<open>Queries\<close>

text \<open>The two reading methods assign nothing: they hand the agent back as they found it.\<close>

definition get_pending_requests :: "ResearchAgent \<Rightarrow> ResearchRequest list \<times> ResearchAgent" where
  "get_pending_requests ag =
     (filter (\<lambda>req. status req = PROPOSED) (dict_values (pending_requests ag)), ag)"

definition get_request_status ::
    "ResearchAgent \<Rightarrow> pystr \<Rightarrow> ResearchRequest option \<times> ResearchAgent" where
  "get_request_status ag request_id = (map_of (pending_requests ag) request_id, ag)"

subsection \<open>Sequences of operations\<close>

text \<open>A call of one of the four mutating operations, with what it reads from outside.\<close>

datatype operation =
    Propose pystr pystr "suggestion list" pystr datetime
  | Approve pystr datetime
  | Deny pystr "pystr option"
  | Execute pystr exchange datetime datetime

text \<open>The states of the agent after each of the call's writes; none when the call raises at once.\<close>

fun op_steps :: "ResearchAgent \<Rightarrow> operation \<Rightarrow> ResearchAgent list" where
  "op_steps ag (Propose q context suggestions uid now) =
     (case propose_research ag q context suggestions uid now of
        Inl e \<Rightarrow> []
      | Inr (request, ag') \<Rightarrow> [ag'])"
| "op_steps ag (Approve request_id now) = [snd (approve_research ag request_id now)]"
| "op_steps ag (Deny request_id reason) = [snd (deny_research ag request_id reason)]"
| "op_steps ag (Execute request_id ex t_stamp t_done) =
     snd (execute_steps ag request_id ex t_stamp t_done)"

definition apply_op :: "ResearchAgent \<Rightarrow> operation \<Rightarrow> ResearchAgent" where
  "apply_op ag c = last (ag # op_steps ag c)"

fun run :: "ResearchAgent \<Rightarrow> operation list \<Rightarrow> ResearchAgent" where
  "run ag [] = ag"
| "run ag (c # cs) = run (apply_op ag c) cs"

fun trace :: "ResearchAgent \<Rightarrow> operation list \<Rightarrow> ResearchAgent list" where
  "trace ag [] = []"
| "trace ag (c # cs) = op_steps ag c @ trace (apply_op ag c) cs"

text \<open>Every generated UUID is new to the registry at the moment it is generated.\<close>

fun fresh_ids :: "ResearchAgent \<Rightarrow> operation list \<Rightarrow> bool" where
  "fresh_ids ag [] = True"
| "fresh_ids ag (c # cs) =
     ((case c of
         Propose q context suggestions uid now \<Rightarrow> map_of (pending_requests ag) uid = None
       | _ \<Rightarrow> True)
      \<and> fresh_ids (apply_op ag c) cs)"

subsection \<open>The transition graph\<close>

definition transition :: "ResearchStatus \<Rightarrow> ResearchStatus \<Rightarrow> bool" where
  "transition x y \<longleftrightarrow>
     x = PROPOSED \<and> (y = APPROVED \<or> y = DENIED) \<or>
     x = APPROVED \<and> y = IN_PROGRESS \<or>
     x = IN_PROGRESS \<and> (y = COMPLETED \<or> y = FAILED)"

definition status_of :: "ResearchAgent \<Rightarrow> pystr \<Rightarrow> ResearchStatus option" where
  "status_of ag k = map_option status (map_of (pending_requests ag) k)"

text \<open>
  One observation of a request's status after another: an absent request stays absent or
  appears as proposed; a present one keeps its status or follows one edge of the graph.
\<close>

fun status_step :: "ResearchStatus option \<Rightarrow> ResearchStatus option \<Rightarrow> bool" where
  "status_step None None = True"
| "status_step None (Some y) = (y = PROPOSED)"
| "status_step (Some x) (Some y) = (x = y \<or> transition x y)"
| "status_step (Some x) None = False"

text \<open>
  What holds of every request the operations can produce: a proposed or approved request
  has no completion time, and an approved one has its approval time.
\<close>

definition request_ok :: "ResearchRequest \<Rightarrow> bool" where
  "request_ok r \<longleftrightarrow>
     ((status r = PROPOSED \<or> status r = APPROVED) \<longrightarrow> completed_at r = None) \<and>
     (status r = APPROVED \<longrightarrow> approved_at r \<noteq> None)"

definition agent_ok :: "ResearchAgent \<Rightarrow> bool" where
  "agent_ok ag \<longleftrightarrow> list_all (\<lambda>(k, r). request_ok r) (pending_requests ag)"

subsection \<open>Auxiliary notions for the statements\<close>

text \<open>A suggestion record that carries both keys the code reads.\<close>

definition has_keys :: "suggestion \<Rightarrow> bool" where
  "has_keys s \<longleftrightarrow>
     map_of s (lit ''advisor'') \<noteq> None \<and> map_of s (lit ''suggestion'') \<noteq> None"

text \<open>A bulleted list: one line, a dash, a blank and the text, for each text in order.\<close>

fun bullets :: "pystr list \<Rightarrow> pystr" where
  "bullets [] = []"
| "bullets (t # ts) = lit ''- '' @ t @ [10] @ bullets ts"

text \<open>
  \<open>r'\<close> is \<open>r\<close> up to the four fields that record progress: every other field has the
  value it has in \<open>r\<close>.
\<close>

definition same_but_progress :: "ResearchRequest \<Rightarrow> ResearchRequest \<Rightarrow> bool" where
  "same_but_progress r r' \<longleftrightarrow>
     r' = r\<lparr>status := status r', approved_at := approved_at r',
            completed_at := completed_at r', results := results r'\<rparr>"

text \<open>
  Between two states of the agent the registry has the same keys in the same order, each
  request is the same up to its progress fields, and the settings of the agent agree.
\<close>

definition frame_kept :: "ResearchAgent \<Rightarrow> ResearchAgent \<Rightarrow> bool" where
  "frame_kept ag ag' \<longleftrightarrow>
     list_all2 (\<lambda>(k, r) (k', r'). k' = k \<and> same_but_progress r r')
       (pending_requests ag) (pending_requests ag') \<and>
     api_key ag' = api_key ag \<and> base_url ag' = base_url ag \<and>
     research_model ag' = research_model ag \<and>
     cost_per_1k_tokens ag' = cost_per_1k_tokens ag"

subsection \<open>A round trip, as data\<close>

definition scenario_suggestions :: "suggestion list" where
  "scenario_suggestions =
     [[(lit ''advisor'', lit ''alex''), (lit ''suggestion'', lit ''check CAC payback'')]]"

definition scenario_ops :: "operation list" where
  "scenario_ops =
     [Propose (lit ''pricing strategy'') (lit ''SaaS founder'') scenario_suggestions
        (lit ''r1'') 10,
      Approve (lit ''r1'') 20,
      Approve (lit ''r1'') 21,
      Propose (lit ''churn'') [] [] (lit ''r2'') 22,
      Deny (lit ''r2'') (Some (lit ''too broad'')),
      Execute (lit ''r1'') (Ok200 (lit ''RESEARCH BRIEF...'') None) 30 40]"

lemmas scenario_defs = scenario_ops_def scenario_suggestions_def ResearchAgent_init_def
  apply_op_def propose_research_def refine_query_with_suggestions_def areas_heading_def
  approve_research_def deny_research_def execute_steps_def execute_approved_research_def
  conduct_research_def store_request_def py_split_def isspace_def lit_def Let_def
  success_response_def failed_response_def status_of_def total_seconds_def transition_def

section \<open>Properties\<close>

subsection \<open>Dictionaries\<close>

lemma map_of_dict_set:
  "map_of (dict_set d k v) k' = (if k' = k then Some v else map_of d k')"
  by (induction d k v rule: dict_set.induct) auto

lemma list_all_dict_set: "list_all P d \<Longrightarrow> P (k, v) \<Longrightarrow> list_all P (dict_set d k v)"
  by (induction d k v rule: dict_set.induct) auto

lemma keys_dict_set:
  "map fst (dict_set d k v) =
     (if k \<in> set (map fst d) then map fst d else map fst d @ [k])"
  by (induction d k v rule: dict_set.induct) auto

lemma distinct_dict_set: "distinct (map fst d) \<Longrightarrow> distinct (map fst (dict_set d k v))"
  by (simp add: keys_dict_set)

lemma dict_set_twice: "dict_set (dict_set d k a) k b = dict_set d k b"
  by (induction d k a rule: dict_set.induct) auto

lemma map_of_list_all: "list_all P d \<Longrightarrow> map_of d k = Some v \<Longrightarrow> P (k, v)"
  by (auto simp: list_all_iff dest: map_of_SomeD)

lemma values_member:
  "distinct (map fst d) \<Longrightarrow> v \<in> set (dict_values d) \<Longrightarrow> \<exists>k. map_of d k = Some v"
  "\<exists>k. map_of d k = Some v \<Longrightarrow> v \<in> set (dict_values d)"
proof -
  assume d: "distinct (map fst d)" and "v \<in> set (dict_values d)"
  then obtain k where "(k, v) \<in> set d" by (auto simp: dict_values_def)
  with d have "map_of d k = Some v" by simp
  then show "\<exists>k. map_of d k = Some v" ..
next
  assume "\<exists>k. map_of d k = Some v"
  then obtain k where "map_of d k = Some v" ..
  then have "(k, v) \<in> set d" by (rule map_of_SomeD)
  then show "v \<in> set (dict_values d)" by (force simp: dict_values_def)
qed

lemma count_selected:
  "distinct (map fst d) \<Longrightarrow>
   length (filter P (dict_values d)) = card {k. \<exists>v. map_of d k = Some v \<and> P v}"
proof (induction d)
  case Nil
  then show ?case by (simp add: dict_values_def)
next
  case (Cons kv d)
  obtain k0 v0 where kv: "kv = (k0, v0)" by (cases kv)
  let ?S = "{k. \<exists>v. map_of d k = Some v \<and> P v}"
  from Cons.prems kv have notin: "k0 \<notin> fst ` set d" and dist: "distinct (map fst d)"
    by auto
  have fin: "finite ?S"
    by (rule finite_subset[of _ "dom (map_of d)"]) (auto simp: finite_dom_map_of)
  have k0: "k0 \<notin> ?S"
  proof
    assume "k0 \<in> ?S"
    then obtain v where "map_of d k0 = Some v" by auto
    then have "(k0, v) \<in> set d" by (rule map_of_SomeD)
    then have "k0 \<in> fst ` set d" by force
    with notin show False by simp
  qed
  have eq: "{k. \<exists>v. map_of (kv # d) k = Some v \<and> P v} = (if P v0 then insert k0 ?S else ?S)"
    using kv k0 by auto
  show ?case unfolding eq using Cons.IH[OF dist] fin k0 kv by (simp add: dict_values_def)
qed

lemma status_of_store:
  "status_of (store_request ag k r) k' = (if k' = k then Some (status r) else status_of ag k')"
  by (simp add: status_of_def store_request_def map_of_dict_set)

lemma store_twice: "store_request (store_request ag k a) k b = store_request ag k b"
  by (simp add: store_request_def dict_set_twice)

lemma lookup_store:
  "map_of (pending_requests (store_request ag k r)) k' =
     (if k' = k then Some r else map_of (pending_requests ag) k')"
  by (simp add: store_request_def map_of_dict_set)

subsection \<open>Rounding to a double\<close>

lemma round_half_even_error: "\<bar>real_of_int (round_half_even y) - y\<bar> \<le> 1 / 2"
  unfolding round_half_even_def Let_def by (auto; linarith)

lemma binade_ge1:
  assumes "1 \<le> x"
  shows "2 powi (binade x) \<le> x \<and> x < 2 powi (binade x + 1)"
proof -
  let ?n = "\<lfloor>x\<rfloor>"
  from assms have n: "0 < ?n" by simp
  from bitlen_bounds[OF n] have lo: "2 ^ nat (bitlen ?n - 1) \<le> ?n"
    and hi: "?n < 2 ^ nat (bitlen ?n)"
    by simp_all
  from n have k: "1 \<le> bitlen ?n" by (simp add: bitlen_alt_def)
  have b: "binade x = bitlen ?n - 1" using assms by (simp add: binade_def)
  have "(2::real) powi (bitlen ?n - 1) = 2 ^ nat (bitlen ?n - 1)"
    using k by (simp add: power_int_nonneg_exp)
  also have "\<dots> = real_of_int (2 ^ nat (bitlen ?n - 1))" by simp
  also have "\<dots> \<le> real_of_int ?n" using lo by (simp only: of_int_le_iff)
  also have "\<dots> \<le> x" by simp
  finally have l: "2 powi (binade x) \<le> x" using b by simp
  from hi have "?n + 1 \<le> 2 ^ nat (bitlen ?n)" by simp
  then have "real_of_int (?n + 1) \<le> real_of_int (2 ^ nat (bitlen ?n))"
    by (simp only: of_int_le_iff)
  then have h: "real_of_int ?n + 1 \<le> 2 ^ nat (bitlen ?n)" by simp
  have xlt: "x < real_of_int ?n + 1" by linarith
  have "(2::real) powi (bitlen ?n) = 2 ^ nat (bitlen ?n)"
    using k by (simp add: power_int_nonneg_exp)
  with h xlt have "x < 2 powi (bitlen ?n)" by linarith
  then have "x < 2 powi (binade x + 1)" using b by simp
  with l show ?thesis by simp
qed

lemma binade_lt1:
  assumes "0 < x" "x < 1"
  shows "2 powi (binade x) \<le> x \<and> x < 2 powi (binade x + 1)"
proof -
  let ?y = "1 / x"
  let ?n = "\<lfloor>?y\<rfloor>"
  let ?k = "bitlen ?n"
  from assms have y1: "1 \<le> ?y" by simp
  then have n: "0 < ?n" by simp
  from n have k: "1 \<le> ?k" by (simp add: bitlen_alt_def)
  from binade_ge1[OF y1] have "2 powi (bitlen ?n - 1) \<le> ?y" "?y < 2 powi ?k"
    using y1 by (simp_all add: binade_def)
  then have up: "x \<le> 1 / 2 powi (?k - 1)" and lo: "1 / 2 powi ?k < x"
    using assms(1) by (simp_all add: field_simps)
  have e1: "1 / (2::real) powi (?k - 1) = 2 powi (1 - ?k)"
    using power_int_minus_divide[of "2::real" "?k - 1"] by simp
  have e2: "1 / (2::real) powi ?k = 2 powi (- ?k)"
    using power_int_minus_divide[of "2::real" "?k"] by simp
  have e3: "(2::real) powi (1 - ?k) * 2 powi ?k = 2"
    using power_int_add[of "2::real" "1 - ?k" ?k] by simp
  show ?thesis
  proof (cases "x * 2 powi ?k = 2")
    case True
    then have b: "binade x = 1 - ?k" using assms by (simp add: binade_def Let_def)
    from True e3 have "x * 2 powi ?k = 2 powi (1 - ?k) * 2 powi ?k" by simp
    then have x: "x = 2 powi (1 - ?k)" by simp
    have "(2::real) powi (1 - ?k) < 2 powi (1 - ?k + 1)"
      by (rule power_int_strict_increasing) simp_all
    with x b show ?thesis by simp
  next
    case False
    then have b: "binade x = - ?k" using assms by (simp add: binade_def Let_def)
    have "x \<noteq> 2 powi (1 - ?k)" using False e3 by auto
    with up e1 have "x < 2 powi (1 - ?k)" by simp
    moreover have "- ?k + 1 = 1 - ?k" by simp
    ultimately show ?thesis using lo e2 b by simp
  qed
qed

text \<open>\<open>binade\<close> is the exponent it is meant to be.\<close>

lemma binade_bounds:
  "0 < x \<Longrightarrow> 2 powi (binade x) \<le> x \<and> x < 2 powi (binade x + 1)"
  using binade_ge1[of x] binade_lt1[of x] by (cases "1 \<le> x") simp_all

text \<open>In the range of the normal numbers a rounding moves its argument by at most \<open>2\<^sup>-\<^sup>5\<^sup>3\<close> of it.\<close>

lemma round_double_error:
  assumes "2 powi (- 1022) \<le> x"
  shows "\<bar>round_double x - x\<bar> \<le> x / 2 ^ 53"
proof -
  have p: "(0::real) < 2 powi (- 1022)" by simp
  with assms have x: "0 < x" by linarith
  from binade_bounds[OF x] have lo: "2 powi (binade x) \<le> x"
    and hi: "x < 2 powi (binade x + 1)"
    by simp_all
  from assms hi have "(2::real) powi (- 1022) < 2 powi (binade x + 1)" by linarith
  have "- 1022 < binade x + 1"
  proof (rule ccontr)
    assume "\<not> - 1022 < binade x + 1"
    then have "binade x + 1 \<le> - 1022" by simp
    then have "(2::real) powi (binade x + 1) \<le> 2 powi (- 1022)"
      by (rule power_int_increasing) simp
    with \<open>(2::real) powi (- 1022) < 2 powi (binade x + 1)\<close> show False by linarith
  qed
  then have e: "max (binade \<bar>x\<bar> - 52) (- 1074) = binade x - 52" using x by simp
  let ?e = "binade x - 52"
  let ?y = "x / 2 powi ?e"
  have pe: "(0::real) < 2 powi ?e" by simp
  have r: "round_double x = of_int (round_half_even ?y) * 2 powi ?e"
    using x e by (simp add: round_double_def Let_def)
  have "round_double x - x = (of_int (round_half_even ?y) - ?y) * 2 powi ?e"
    using pe by (simp add: r field_simps)
  then have "\<bar>round_double x - x\<bar> = \<bar>of_int (round_half_even ?y) - ?y\<bar> * 2 powi ?e"
    using pe by (simp add: abs_mult)
  also have "\<dots> \<le> 1 / 2 * 2 powi ?e"
    using round_half_even_error[of ?y] pe by (intro mult_right_mono) simp_all
  also have "\<dots> = 2 powi (binade x) / 2 ^ 53"
    using power_int_diff[of "2::real" "binade x" 52] by simp
  also have "\<dots> \<le> x / 2 ^ 53" using lo by (simp add: divide_right_mono)
  finally show ?thesis .
qed

lemma round_double_0: "round_double 0 = 0"
  by (simp add: round_double_def)

lemma rel_bounds:
  assumes "0 \<le> (t::real)" "0 \<le> u" "u \<le> 1" "\<bar>a - t\<bar> \<le> t * u"
  shows "0 \<le> a" "a \<le> t * (1 + u)"
proof -
  from assms(1,3) have "t * u \<le> t" by (simp add: mult_left_le)
  with assms(4) show "0 \<le> a" by linarith
  from assms(4) have "a \<le> t + t * u" by linarith
  then show "a \<le> t * (1 + u)" by (simp add: algebra_simps)
qed

lemma rel_lower:
  assumes "0 \<le> (t::real)" "u \<le> 1 / 2" "\<bar>a - t\<bar> \<le> t * u"
  shows "t / 2 \<le> a"
proof -
  from assms(1,2) have "t * u \<le> t * (1 / 2)" by (rule mult_left_mono[rotated])
  with assms(3) show ?thesis by linarith
qed

text \<open>Three roundings, of two factors and of their product, add up to less than four.\<close>

lemma three_roundings:
  fixes t p u a c r :: real
  assumes t: "0 \<le> t" and p: "0 \<le> p" and u: "0 \<le> u" "u \<le> 1 / 4"
    and a: "\<bar>a - t\<bar> \<le> t * u" and c: "\<bar>c - p\<bar> \<le> p * u"
    and r: "\<bar>r - a * c\<bar> \<le> a * c * u"
  shows "\<bar>r - t * p\<bar> \<le> t * p * (4 * u)"
proof -
  from u have u1: "u \<le> 1" by simp
  note ab = rel_bounds[OF t u(1) u1 a]
  note cb = rel_bounds[OF p u(1) u1 c]
  have ac: "a * c \<le> (t * (1 + u)) * (p * (1 + u))"
    using ab cb by (intro mult_mono) simp_all
  have "a * c - t * p = a * (c - p) + (a - t) * p" by (simp add: algebra_simps)
  then have "\<bar>a * c - t * p\<bar> \<le> \<bar>a * (c - p)\<bar> + \<bar>(a - t) * p\<bar>"
    by (simp only: abs_triangle_ineq)
  also have "\<dots> = a * \<bar>c - p\<bar> + \<bar>a - t\<bar> * p"
    using ab(1) p by (simp add: abs_mult)
  also have "\<dots> \<le> (t * (1 + u)) * (p * u) + (t * u) * p"
  proof (intro add_mono mult_mono)
    show "a \<le> t * (1 + u)" by (rule ab(2))
    show "\<bar>c - p\<bar> \<le> p * u" by (rule c)
    show "\<bar>a - t\<bar> \<le> t * u" by (rule a)
  qed (use t p u in simp_all)
  finally have d: "\<bar>a * c - t * p\<bar> \<le> (t * (1 + u)) * (p * u) + (t * u) * p" .
  have "a * c * u \<le> (t * (1 + u)) * (p * (1 + u)) * u"
    using ac u(1) by (rule mult_right_mono)
  with r have r': "\<bar>r - a * c\<bar> \<le> (t * (1 + u)) * (p * (1 + u)) * u" by linarith
  have "\<bar>r - t * p\<bar> \<le> \<bar>r - a * c\<bar> + \<bar>a * c - t * p\<bar>" by linarith
  with r' d have "\<bar>r - t * p\<bar> \<le>
      (t * (1 + u)) * (p * (1 + u)) * u + ((t * (1 + u)) * (p * u) + (t * u) * p)"
    by linarith
  also have "\<dots> = (t * p * u) * ((1 + u) * (1 + u) + (1 + u) + 1)"
    by (simp add: algebra_simps)
  also have "\<dots> \<le> (t * p * u) * 4"
  proof (rule mult_left_mono)
    have "u * u \<le> 1 / 4 * u" using u by (intro mult_right_mono) simp_all
    then have "(1 + u) * (1 + u) + (1 + u) + 1 \<le> 3 + 3 * u + 1 / 4 * u"
      by (simp add: algebra_simps)
    also have "\<dots> \<le> 4" using u by simp
    finally show "(1 + u) * (1 + u) + (1 + u) + 1 \<le> 4" .
    show "0 \<le> t * p * u" using t p u by simp
  qed
  finally show ?thesis by (simp add: algebra_simps)
qed

text \<open>The cost as the code computes it, against the exact product.\<close>

lemma cost_error:
  "\<bar>float_mul (int_truediv (w * 3) 1000) (round_double (8 / 1000)) -
      real (w * 3) / 1000 * (8 / 1000)\<bar>
   \<le> real (w * 3) / 1000 * (8 / 1000) / 2 ^ 51"
proof (cases "w = 0")
  case True
  then show ?thesis by (simp add: float_mul_def int_truediv_def round_double_0)
next
  case False
  let ?t = "real (w * 3) / 1000"
  let ?p = "8 / 1000 :: real"
  let ?u = "1 / 2 ^ 53 :: real"
  let ?a = "round_double ?t"
  let ?c = "round_double ?p"
  let ?r = "round_double (?a * ?c)"
  have small: "(2::real) powi (- 1022) \<le> 2 powi (- 20)"
    by (rule power_int_increasing) simp_all
  from False have w1: "1 \<le> real w" by simp
  then have t3: "3 / 1000 \<le> ?t" by simp
  have "(2::real) powi (- 20) \<le> 3 / 1000" by simp
  with small t3 have tn: "2 powi (- 1022) \<le> ?t" by linarith
  have "(2::real) powi (- 20) \<le> ?p" by simp
  with small have cn: "2 powi (- 1022) \<le> ?p" by linarith
  have a: "\<bar>?a - ?t\<bar> \<le> ?t * ?u" using round_double_error[OF tn] by simp
  have c: "\<bar>?c - ?p\<bar> \<le> ?p * ?u" using round_double_error[OF cn] by simp
  have "?t / 2 \<le> ?a" by (rule rel_lower[OF _ _ a]) simp_all
  with t3 have a_lo: "1 / 1000 \<le> ?a" by linarith
  have "?p / 2 \<le> ?c" by (rule rel_lower[OF _ _ c]) simp_all
  then have c_lo: "1 / 1000 \<le> ?c" by linarith
  have "(1 / 1000) * (1 / 1000) \<le> ?a * ?c"
    using a_lo c_lo by (intro mult_mono) simp_all
  moreover have "(2::real) powi (- 20) \<le> (1 / 1000) * (1 / 1000)" by simp
  ultimately have pn: "2 powi (- 1022) \<le> ?a * ?c" using small by linarith
  have r: "\<bar>?r - ?a * ?c\<bar> \<le> ?a * ?c * ?u"
    using round_double_error[OF pn] by simp
  have "\<bar>?r - ?t * ?p\<bar> \<le> ?t * ?p * (4 * ?u)"
    by (rule three_roundings[OF _ _ _ _ a c r]) simp_all
  then show ?thesis by (simp add: float_mul_def int_truediv_def)
qed

subsection \<open>Counting words\<close>

lemma split_scan_length:
  "length (split_scan w s) = (if w = [] then 0 else 1) + word_starts (w \<noteq> []) s"
  by (induction w s rule: split_scan.induct) auto

lemma py_split_count: "length (py_split s) = word_count s"
  by (simp add: py_split_def word_count_def split_scan_length)

subsection \<open>What every reachable state satisfies\<close>

lemma agent_ok_store: "agent_ok ag \<Longrightarrow> request_ok r \<Longrightarrow> agent_ok (store_request ag k r)"
  by (simp add: agent_ok_def store_request_def list_all_dict_set)

lemma agent_ok_lookup:
  "agent_ok ag \<Longrightarrow> map_of (pending_requests ag) k = Some r \<Longrightarrow> request_ok r"
  using map_of_list_all[of "\<lambda>(k, r). request_ok r" "pending_requests ag" k r]
  by (simp add: agent_ok_def)

lemma propose_steps_ok:
  assumes "agent_ok ag"
  shows "list_all agent_ok (op_steps ag (Propose q cx sg uid now))"
  using assms
  by (auto simp: propose_research_def Let_def request_ok_def split: sum.splits
      intro!: agent_ok_store)

lemma approve_steps_ok:
  assumes "agent_ok ag"
  shows "list_all agent_ok (op_steps ag (Approve i now))"
  using assms
  by (auto simp: approve_research_def request_ok_def split: option.splits
      dest: agent_ok_lookup intro!: agent_ok_store)

lemma deny_steps_ok:
  assumes "agent_ok ag"
  shows "list_all agent_ok (op_steps ag (Deny i reason))"
  using assms
  by (auto simp: deny_research_def request_ok_def split: option.splits intro!: agent_ok_store)

lemma execute_steps_ok:
  assumes "agent_ok ag"
  shows "list_all agent_ok (snd (execute_steps ag i ex t1 t2))"
  using assms
  by (auto simp: execute_steps_def Let_def request_ok_def split: option.splits sum.splits
      intro!: agent_ok_store)

lemma op_steps_ok: "agent_ok ag \<Longrightarrow> list_all agent_ok (op_steps ag c)"
proof (cases c)
  case (Execute i ex t1 t2)
  assume "agent_ok ag"
  then show ?thesis unfolding Execute op_steps.simps by (rule execute_steps_ok)
qed (simp_all only: propose_steps_ok approve_steps_ok deny_steps_ok)

lemma apply_op_ok: "agent_ok ag \<Longrightarrow> agent_ok (apply_op ag c)"
  using op_steps_ok[of ag c]
  by (cases "op_steps ag c" rule: rev_cases) (simp_all add: apply_op_def)

lemma run_ok: "agent_ok ag \<Longrightarrow> agent_ok (run ag cs)"
  by (induction cs arbitrary: ag) (simp_all add: apply_op_ok)

lemma init_ok: "agent_ok (ResearchAgent_init key)"
  by (simp add: agent_ok_def ResearchAgent_init_def)

lemma reachable_ok: "agent_ok (run (ResearchAgent_init key) cs)"
  by (rule run_ok[OF init_ok])

text \<open>The keys of the registry stay distinct, as those of a dictionary are.\<close>

lemma op_steps_distinct:
  "distinct (map fst (pending_requests ag)) \<Longrightarrow> s \<in> set (op_steps ag c) \<Longrightarrow>
   distinct (map fst (pending_requests s))"
  by (cases c)
     (auto simp: propose_research_def approve_research_def deny_research_def execute_steps_def
        store_request_def Let_def distinct_dict_set split: sum.splits option.splits if_splits)

lemma apply_op_distinct:
  assumes "distinct (map fst (pending_requests ag))"
  shows "distinct (map fst (pending_requests (apply_op ag c)))"
proof (cases "op_steps ag c" rule: rev_cases)
  case Nil
  with assms show ?thesis by (simp add: apply_op_def)
next
  case (snoc ss s)
  then have "s \<in> set (op_steps ag c)" by simp
  from op_steps_distinct[OF assms this] snoc show ?thesis by (simp add: apply_op_def)
qed

lemma run_distinct:
  "distinct (map fst (pending_requests ag)) \<Longrightarrow>
   distinct (map fst (pending_requests (run ag cs)))"
  by (induction cs arbitrary: ag) (simp_all add: apply_op_distinct)

lemma reachable_distinct:
  "distinct (map fst (pending_requests (run (ResearchAgent_init key) cs)))"
  by (rule run_distinct) (simp add: ResearchAgent_init_def)

text \<open>No operation touches the model name or the price constant.\<close>

lemma op_steps_settings:
  "s \<in> set (op_steps ag c) \<Longrightarrow>
   cost_per_1k_tokens s = cost_per_1k_tokens ag \<and> research_model s = research_model ag"
  by (cases c)
     (auto simp: propose_research_def approve_research_def deny_research_def execute_steps_def
        store_request_def Let_def split: sum.splits option.splits if_splits)

lemma apply_op_settings:
  "cost_per_1k_tokens (apply_op ag c) = cost_per_1k_tokens ag \<and>
   research_model (apply_op ag c) = research_model ag"
proof (cases "op_steps ag c" rule: rev_cases)
  case Nil
  then show ?thesis by (simp add: apply_op_def)
next
  case (snoc ss s)
  then have "s \<in> set (op_steps ag c)" by simp
  from op_steps_settings[OF this] snoc show ?thesis by (simp add: apply_op_def)
qed

lemma run_settings:
  "cost_per_1k_tokens (run ag cs) = cost_per_1k_tokens ag \<and>
   research_model (run ag cs) = research_model ag"
  by (induction cs arbitrary: ag) (simp_all add: apply_op_settings)

lemma reachable_cost:
  "cost_per_1k_tokens (run (ResearchAgent_init key) cs) = round_double (8 / 1000)"
  by (simp add: run_settings ResearchAgent_init_def)

subsection \<open>Each write of a status follows the graph\<close>

lemma status_step_refl: "status_step x x"
  by (cases x) simp_all

lemma propose_status:
  assumes "map_of (pending_requests ag) uid = None"
  shows "successively status_step
           (map (\<lambda>s. status_of s k) (ag # op_steps ag (Propose q cx sg uid now)))"
  using assms
  by (auto simp: propose_research_def Let_def status_of_store split: sum.splits)
     (auto simp: status_of_def status_step_refl)

lemma approve_status:
  "successively status_step (map (\<lambda>s. status_of s k) (ag # op_steps ag (Approve i now)))"
  by (auto simp: approve_research_def status_of_store status_step_refl transition_def
        split: option.splits)
     (auto simp: status_of_def transition_def)

lemma deny_status:
  "successively status_step (map (\<lambda>s. status_of s k) (ag # op_steps ag (Deny i reason)))"
  by (auto simp: deny_research_def status_of_store status_step_refl transition_def
        split: option.splits)
     (auto simp: status_of_def transition_def)

lemma execute_status:
  assumes "agent_ok ag"
  shows "successively status_step
           (map (\<lambda>s. status_of s k) (ag # snd (execute_steps ag i ex t1 t2)))"
proof (cases "map_of (pending_requests ag) i")
  case None
  then show ?thesis by (simp add: execute_steps_def)
next
  case (Some r)
  show ?thesis
  proof (cases "status r = APPROVED")
    case False
    with Some show ?thesis by (simp add: execute_steps_def)
  next
    case True
    with Some assms have "approved_at r \<noteq> None"
      by (auto dest: agent_ok_lookup simp: request_ok_def)
    then obtain ta where ta: "approved_at r = Some ta" by auto
    have s0: "status_of ag i = Some APPROVED" using Some True by (simp add: status_of_def)
    show ?thesis
      using Some True ta s0
      by (cases "k = i")
         (auto simp: execute_steps_def Let_def status_of_store status_step_refl transition_def
               split: sum.splits)
  qed
qed

lemma op_steps_status:
  assumes "agent_ok ag"
    and "fresh_ids ag [c]"
  shows "successively status_step (map (\<lambda>s. status_of s k) (ag # op_steps ag c))"
proof (cases c)
  case (Propose q cx sg uid now)
  with assms(2) have "map_of (pending_requests ag) uid = None" by simp
  then show ?thesis unfolding Propose by (rule propose_status)
next
  case (Approve i now)
  show ?thesis unfolding Approve by (rule approve_status)
next
  case (Deny i reason)
  show ?thesis unfolding Deny by (rule deny_status)
next
  case (Execute i ex t1 t2)
  show ?thesis unfolding Execute op_steps.simps using assms(1) by (rule execute_status)
qed

lemma successively_glue:
  "successively P (x # xs) \<Longrightarrow> successively P (last (x # xs) # ys) \<Longrightarrow>
   successively P (x # xs @ ys)"
  by (induction xs arbitrary: x) auto

lemma trace_status:
  "agent_ok ag \<Longrightarrow> fresh_ids ag cs \<Longrightarrow>
   successively status_step (map (\<lambda>s. status_of s k) (ag # trace ag cs))"
proof (induction cs arbitrary: ag)
  case Nil
  then show ?case by simp
next
  case (Cons c cs)
  let ?f = "\<lambda>s. status_of s k"
  from Cons.prems have fr: "fresh_ids ag [c]" and fr': "fresh_ids (apply_op ag c) cs"
    by simp_all
  have a: "successively status_step (?f ag # map ?f (op_steps ag c))"
    using op_steps_status[OF Cons.prems(1) fr, of k] by simp
  have b: "successively status_step (?f (apply_op ag c) # map ?f (trace (apply_op ag c) cs))"
    using Cons.IH[OF apply_op_ok[OF Cons.prems(1)] fr'] by simp
  have l: "last (?f ag # map ?f (op_steps ag c)) = ?f (apply_op ag c)"
    unfolding apply_op_def by (cases "op_steps ag c" rule: rev_cases) simp_all
  from successively_glue[OF a] b l show ?case by simp
qed

lemma approve_guard:
  "status_of ag i \<noteq> Some PROPOSED \<Longrightarrow> approve_research ag i now = (False, ag)"
  by (auto simp: approve_research_def status_of_def split: option.splits)

lemma deny_guard:
  "status_of ag i \<noteq> Some PROPOSED \<Longrightarrow> deny_research ag i reason = (False, ag)"
  by (auto simp: deny_research_def status_of_def split: option.splits)

lemma execute_guard:
  "status_of ag i \<noteq> Some APPROVED \<Longrightarrow>
   \<exists>m. execute_approved_research ag i ex t1 t2 = (Inl (ValueError m), ag)"
  by (auto simp: execute_approved_research_def execute_steps_def status_of_def
        split: option.splits)

subsection \<open>The outcomes of \<^verbatim>\<open>execute_approved_research\<close>\<close>

lemma execute_not_found:
  "map_of (pending_requests ag) i = None \<Longrightarrow>
   execute_approved_research ag i ex t1 t2 =
     (Inl (ValueError (lit ''Request '' @ i @ lit '' not found'')), ag)"
  by (simp add: execute_approved_research_def execute_steps_def)

lemma execute_not_approved:
  "map_of (pending_requests ag) i = Some r \<Longrightarrow> status r \<noteq> APPROVED \<Longrightarrow>
   execute_approved_research ag i ex t1 t2 =
     (Inl (ValueError (lit ''Request '' @ i @ lit '' is not approved. Status: '' @
            str_status (status r))), ag)"
  by (simp add: execute_approved_research_def execute_steps_def)

lemma execute_failed:
  assumes "agent_ok ag" "map_of (pending_requests ag) i = Some r" "status r = APPROVED"
    "conduct_research ag (refined_query r) ex t1 = Inl e"
  shows "execute_approved_research ag i ex t1 t2 =
     (Inr (failed_response i e),
      store_request ag i
        (r\<lparr>status := FAILED, results := Some [(lit ''error'', PStr (str_error e))]\<rparr>))
     \<and> completed_at r = None"
proof -
  from assms(1-3) have "completed_at r = None"
    by (auto dest: agent_ok_lookup simp: request_ok_def)
  with assms(2-4) show ?thesis
    by (simp add: execute_approved_research_def execute_steps_def Let_def store_twice)
qed

lemma conduct_raises:
  "conduct_research ag q (Raises m) t = Inl (Exception m)"
  "conduct_research ag q (NonOk txt) t = Inl (Exception (lit ''Research API error: '' @ txt))"
  by (simp_all add: conduct_research_def)


lemma status_of_lookup:
  "status_of ag i = Some s \<Longrightarrow> \<exists>r. map_of (pending_requests ag) i = Some r \<and> status r = s"
  by (auto simp: status_of_def)

subsection \<open>The flags of \<^verbatim>\<open>approve_research\<close> and \<^verbatim>\<open>deny_research\<close>\<close>

lemma approve_flag:
  "fst (approve_research ag i now) \<longleftrightarrow> status_of ag i = Some PROPOSED"
  by (auto simp: approve_research_def status_of_def split: option.splits)

lemma deny_flag:
  "fst (deny_research ag i reason) \<longleftrightarrow> status_of ag i = Some PROPOSED"
  by (auto simp: deny_research_def status_of_def split: option.splits)

lemma approve_status_after:
  "status_of ag i = Some PROPOSED \<Longrightarrow>
   status_of (snd (approve_research ag i now)) i = Some APPROVED"
  by (auto simp: approve_research_def status_of_def lookup_store split: option.splits)

lemma deny_status_after:
  "status_of ag i = Some PROPOSED \<Longrightarrow>
   status_of (snd (deny_research ag i reason)) i = Some DENIED"
  by (auto simp: deny_research_def status_of_def lookup_store split: option.splits)

lemma execute_status_after:
  "status_of ag i = Some APPROVED \<Longrightarrow>
   status_of (snd (execute_approved_research ag i ex t1 t2)) i = Some COMPLETED \<or>
   status_of (snd (execute_approved_research ag i ex t1 t2)) i = Some FAILED"
  by (auto simp: execute_approved_research_def execute_steps_def status_of_def lookup_store Let_def
        split: option.splits sum.splits)

lemma propose_status_after:
  "propose_research ag q cx sg uid t0 = Inr (req, ag1) \<Longrightarrow> status_of ag1 uid = Some PROPOSED"
  by (auto simp: propose_research_def status_of_def lookup_store Let_def split: sum.splits)

subsection \<open>The refined query\<close>

lemma suggestion_lines_ok:
  "list_all has_keys sg \<Longrightarrow> \<exists>ls. suggestion_lines sg = Inr ls"
  by (induction sg) (auto simp: has_keys_def)

lemma append_bullets_ok:
  "list_all has_keys sg \<Longrightarrow> \<exists>rq. append_bullets acc sg = Inr rq"
  by (induction sg arbitrary: acc) (auto simp: has_keys_def)

lemma refine_ok:
  "list_all has_keys sg \<Longrightarrow> \<exists>rq. refine_query_with_suggestions q cx sg = Inr rq"
  using suggestion_lines_ok[of sg] append_bullets_ok[of sg]
  by (auto simp: refine_query_with_suggestions_def Let_def)

lemma append_bullets_eq:
  "map (\<lambda>s. map_of s (lit ''suggestion'')) sg = map Some ts \<Longrightarrow>
   append_bullets acc sg = Inr (acc @ bullets ts)"
  by (induction sg arbitrary: acc ts) auto

lemma refine_eq:
  assumes "refine_query_with_suggestions q cx sg = Inr rq"
    and "map (\<lambda>s. map_of s (lit ''suggestion'')) sg = map Some ts"
  shows "rq = q @ areas_heading @ bullets ts"
  using assms
  by (auto simp: refine_query_with_suggestions_def Let_def append_bullets_eq split: sum.splits)

lemma propose_refined:
  "propose_research ag q cx sg uid now = Inr (req, ag') \<Longrightarrow>
   \<exists>rq. refine_query_with_suggestions q cx sg = Inr rq \<and> refined_query req = Some rq \<and>
        cost_estimate req =
          Some (float_mul (int_truediv (length (py_split rq) * 3) 1000)
                  (cost_per_1k_tokens ag)) \<and>
        original_context req = cx"
  by (auto simp: propose_research_def Let_def split: sum.splits)

lemma bullets_concat: "bullets ts = concat (map (\<lambda>t. lit ''- '' @ t @ [10]) ts)"
  by (induction ts) simp_all

lemma bullets_contains: "t \<in> set ts \<Longrightarrow> \<exists>a b. bullets ts = a @ t @ b"
proof (induction ts)
  case Nil
  then show ?case by simp
next
  case (Cons x ts)
  show ?case
  proof (cases "t = x")
    case True
    have "bullets (x # ts) = lit ''- '' @ x @ ([10] @ bullets ts)" by simp
    with True show ?thesis by blast
  next
    case False
    with Cons obtain a b where "bullets ts = a @ t @ b" by auto
    then have "bullets (x # ts) = (lit ''- '' @ x @ [10] @ a) @ t @ b" by simp
    then show ?thesis by blast
  qed
qed

subsection \<open>The frame of the mutating operations\<close>

lemma same_refl: "same_but_progress r r"
  by (simp add: same_but_progress_def)

lemma frame_dict_set:
  "map_of d k = Some r \<Longrightarrow> same_but_progress r r' \<Longrightarrow>
   list_all2 (\<lambda>(k, r) (k', r'). k' = k \<and> same_but_progress r r') d (dict_set d k r')"
  by (induction d k r' rule: dict_set.induct)
     (auto simp: same_refl list_all2_same split: if_splits)

lemma frame_refl: "frame_kept ag ag"
  by (auto simp: frame_kept_def list_all2_same same_refl)

lemma frame_store:
  "map_of (pending_requests ag) k = Some r \<Longrightarrow> same_but_progress r r' \<Longrightarrow>
   frame_kept ag (store_request ag k r')"
  by (simp add: frame_kept_def store_request_def frame_dict_set)

lemma frame_lookup_list:
  "list_all2 (\<lambda>(k, r) (k', r'). k' = k \<and> same_but_progress r r') d d' \<Longrightarrow>
   map_of d k = Some r \<Longrightarrow> \<exists>r'. map_of d' k = Some r' \<and> same_but_progress r r'"
  by (induction d d' rule: list_all2_induct) (auto split: if_splits)

lemma frame_lookup:
  "frame_kept ag ag' \<Longrightarrow> map_of (pending_requests ag) k = Some r \<Longrightarrow>
   \<exists>r'. map_of (pending_requests ag') k = Some r' \<and> same_but_progress r r'"
  by (auto simp: frame_kept_def dest: frame_lookup_list)

lemma approve_frame: "frame_kept ag (snd (approve_research ag i now))"
  by (auto simp: approve_research_def frame_refl same_but_progress_def split: option.splits
        intro!: frame_store)

lemma deny_frame: "frame_kept ag (snd (deny_research ag i reason))"
  by (auto simp: deny_research_def frame_refl same_but_progress_def split: option.splits
        intro!: frame_store)

lemma execute_steps_frame: "s \<in> set (snd (execute_steps ag i ex t1 t2)) \<Longrightarrow> frame_kept ag s"
  by (auto simp: execute_steps_def Let_def store_twice same_but_progress_def
        split: option.splits sum.splits if_splits intro!: frame_store)

lemma execute_frame: "frame_kept ag (snd (execute_approved_research ag i ex t1 t2))"
proof (cases "snd (execute_steps ag i ex t1 t2)" rule: rev_cases)
  case Nil
  then show ?thesis
    by (simp add: execute_approved_research_def case_prod_unfold frame_refl)
next
  case (snoc ss s)
  then have "s \<in> set (snd (execute_steps ag i ex t1 t2))" by simp
  then have "frame_kept ag s" by (rule execute_steps_frame)
  with snoc show ?thesis by (simp add: execute_approved_research_def case_prod_unfold)
qed

lemma same_fields:
  "same_but_progress r r' \<Longrightarrow>
   id' r' = id' r \<and> query r' = query r \<and> original_context r' = original_context r \<and>
   advisor_suggestions r' = advisor_suggestions r \<and> refined_query r' = refined_query r \<and>
   created_at r' = created_at r \<and> cost_estimate r' = cost_estimate r"
proof -
  assume "same_but_progress r r'"
  then have e: "r' = r\<lparr>status := status r', approved_at := approved_at r',
            completed_at := completed_at r', results := results r'\<rparr>"
    by (simp add: same_but_progress_def)
  show ?thesis by (subst e, simp)+
qed

section \<open>The claims\<close>

text \<open>
  C1. Take any sequence of propose, approve, deny and execute calls on a new agent, every
  generated identifier being new to the registry. Read the status of any one request after
  each write the calls make: from one reading to the next the request stays absent or
  appears as proposed, or keeps its status, or moves along one edge of the graph
  proposed to approved to in-progress to completed or failed, and proposed to denied.
  In any state whatever, approve and deny on a request that is not proposed return false
  and leave the agent as it was, execute on a request that is not approved raises a
  \<^verbatim>\<open>ValueError\<close> and leaves the agent as it was, and the request a proposal creates is
  proposed. The registry tells requests apart by their identifiers, hence the condition on
  the generated ones.
\<close>

theorem status_follows_transition_graph:
  assumes "fresh_ids (ResearchAgent_init key) cs"
  shows "successively status_step
           (map (\<lambda>s. status_of s k)
              (ResearchAgent_init key # trace (ResearchAgent_init key) cs)) \<and>
         (status_of ag i \<noteq> Some PROPOSED \<longrightarrow>
            approve_research ag i now = (False, ag) \<and>
            deny_research ag i reason = (False, ag)) \<and>
         (status_of ag i \<noteq> Some APPROVED \<longrightarrow>
            (\<exists>m. execute_approved_research ag i ex t1 t2 = (Inl (ValueError m), ag))) \<and>
         (propose_research ag q cx sg uid now = Inr (req, ag2) \<longrightarrow>
            status req = PROPOSED \<and> status_of ag2 uid = Some PROPOSED)"
proof -
  have "propose_research ag q cx sg uid now = Inr (req, ag2) \<longrightarrow>
            status req = PROPOSED \<and> status_of ag2 uid = Some PROPOSED"
    by (auto simp: propose_research_def Let_def status_of_store split: sum.splits)
  with trace_status[OF init_ok assms, of k] approve_guard[of ag i now]
    deny_guard[of ag i reason] execute_guard[of ag i ex t1 t2]
  show ?thesis by blast
qed

theorem status_follows_transition_graph_witness:
  "fresh_ids (ResearchAgent_init (lit ''key'')) scenario_ops \<and>
   map (\<lambda>s. status_of s (lit ''r1''))
     (ResearchAgent_init (lit ''key'') # trace (ResearchAgent_init (lit ''key'')) scenario_ops) =
     [None, Some PROPOSED, Some APPROVED, Some APPROVED, Some APPROVED, Some APPROVED,
      Some IN_PROGRESS, Some COMPLETED] \<and>
   successively status_step
     (map (\<lambda>s. status_of s (lit ''r1''))
        (ResearchAgent_init (lit ''key'') #
         trace (ResearchAgent_init (lit ''key'')) scenario_ops)) \<and>
   status_of (run (ResearchAgent_init (lit ''key'')) scenario_ops) (lit ''r1'') =
     Some COMPLETED \<and>
   approve_research (run (ResearchAgent_init (lit ''key'')) scenario_ops) (lit ''r1'') 50 =
     (False, run (ResearchAgent_init (lit ''key'')) scenario_ops) \<and>
   deny_research (run (ResearchAgent_init (lit ''key'')) scenario_ops) (lit ''r1'') None =
     (False, run (ResearchAgent_init (lit ''key'')) scenario_ops) \<and>
   (\<exists>m. execute_approved_research (run (ResearchAgent_init (lit ''key'')) scenario_ops)
          (lit ''r1'') (Raises []) 50 60 =
        (Inl (ValueError m), run (ResearchAgent_init (lit ''key'')) scenario_ops)) \<and>
   (\<exists>req ag2.
      propose_research (run (ResearchAgent_init (lit ''key'')) scenario_ops) (lit ''churn'') []
        [] (lit ''r3'') 50 = Inr (req, ag2) \<and>
      status req = PROPOSED \<and> status_of ag2 (lit ''r3'') = Some PROPOSED)"
proof -
  let ?ag = "run (ResearchAgent_init (lit ''key'')) scenario_ops"
  have f: "fresh_ids (ResearchAgent_init (lit ''key'')) scenario_ops"
    by (simp add: scenario_defs)
  have h: "map (\<lambda>s. status_of s (lit ''r1''))
     (ResearchAgent_init (lit ''key'') # trace (ResearchAgent_init (lit ''key'')) scenario_ops) =
     [None, Some PROPOSED, Some APPROVED, Some APPROVED, Some APPROVED, Some APPROVED,
      Some IN_PROGRESS, Some COMPLETED]"
    by (simp add: scenario_defs)
  have s: "status_of ?ag (lit ''r1'') = Some COMPLETED"
    by (simp add: scenario_defs)
  from s have n: "status_of ?ag (lit ''r1'') \<noteq> Some PROPOSED"
    "status_of ?ag (lit ''r1'') \<noteq> Some APPROVED"
    by simp_all
  obtain req ag2 where p: "propose_research ?ag (lit ''churn'') [] [] (lit ''r3'') 50 =
      Inr (req, ag2)"
    by (simp add: propose_research_def refine_query_with_suggestions_def Let_def)
  from status_follows_transition_graph[OF f, where k = "lit ''r1''" and ag = ?ag
      and i = "lit ''r1''" and now = 50 and reason = None and ex = "Raises []"
      and ?t1.0 = 50 and ?t2.0 = 60 and q = "lit ''churn''" and cx = "[]" and sg = "[]"
      and uid = "lit ''r3''" and req = req and ?ag2.0 = ag2] f h s n p
  show ?thesis by blast
qed

text \<open>
  C2. \<^verbatim>\<open>execute_approved_research\<close> raises \<^verbatim>\<open>ValueError\<close> with the message ``Request \<dots> not
  found'' for an identifier the registry does not hold, and with ``Request \<dots> is not
  approved. Status: \<dots>'' naming the current status for a request that is not approved; in
  both cases the agent, and so the status, is as before. In a state reached from a new
  agent, when the completion call on an approved request raises an exception \<open>e\<close> (a
  transport or decoding error, or the error raised for a response other than 200), the
  call returns the dictionary of status ``failed'', the identifier and \<^verbatim>\<open>str(e)\<close>, and the
  request is registered as failed with \<^verbatim>\<open>str(e)\<close> under \<^verbatim>\<open>results["error"]\<close> and without a
  completion time.
\<close>

theorem execute_error_handling:
  "(map_of (pending_requests ag) i = None \<longrightarrow>
      execute_approved_research ag i ex t1 t2 =
        (Inl (ValueError (lit ''Request '' @ i @ lit '' not found'')), ag)) \<and>
   (map_of (pending_requests ag) i = Some r \<and> status r \<noteq> APPROVED \<longrightarrow>
      execute_approved_research ag i ex t1 t2 =
        (Inl (ValueError (lit ''Request '' @ i @ lit '' is not approved. Status: '' @
               str_status (status r))), ag)) \<and>
   (map_of (pending_requests (run (ResearchAgent_init key) cs)) i = Some r \<and>
    status r = APPROVED \<and>
    conduct_research (run (ResearchAgent_init key) cs) (refined_query r) ex t1 = Inl e \<longrightarrow>
      execute_approved_research (run (ResearchAgent_init key) cs) i ex t1 t2 =
        (Inr [(lit ''status'', PStr (lit ''failed'')), (lit ''request_id'', PStr i),
              (lit ''error'', PStr (str_error e))],
         store_request (run (ResearchAgent_init key) cs) i
           (r\<lparr>status := FAILED, results := Some [(lit ''error'', PStr (str_error e))]\<rparr>)) \<and>
      completed_at
        (r\<lparr>status := FAILED, results := Some [(lit ''error'', PStr (str_error e))]\<rparr>) = None \<and>
      map_of (pending_requests
                (snd (execute_approved_research (run (ResearchAgent_init key) cs) i ex t1 t2))) i =
        Some (r\<lparr>status := FAILED, results := Some [(lit ''error'', PStr (str_error e))]\<rparr>)) \<and>
   conduct_research ag q (Raises m) t1 = Inl (Exception m) \<and>
   conduct_research ag q (NonOk m) t1 = Inl (Exception (lit ''Research API error: '' @ m))"
proof -
  let ?ag = "run (ResearchAgent_init key) cs"
  have c: "map_of (pending_requests ?ag) i = Some r \<and> status r = APPROVED \<and>
    conduct_research ?ag (refined_query r) ex t1 = Inl e \<longrightarrow>
      execute_approved_research ?ag i ex t1 t2 =
        (Inr [(lit ''status'', PStr (lit ''failed'')), (lit ''request_id'', PStr i),
              (lit ''error'', PStr (str_error e))],
         store_request ?ag i
           (r\<lparr>status := FAILED, results := Some [(lit ''error'', PStr (str_error e))]\<rparr>)) \<and>
      completed_at
        (r\<lparr>status := FAILED, results := Some [(lit ''error'', PStr (str_error e))]\<rparr>) = None \<and>
      map_of (pending_requests (snd (execute_approved_research ?ag i ex t1 t2))) i =
        Some (r\<lparr>status := FAILED, results := Some [(lit ''error'', PStr (str_error e))]\<rparr>)"
    using execute_failed[OF reachable_ok, of key cs i r ex t1 e t2]
    by (auto simp: failed_response_def lookup_store)
  show ?thesis
    using c execute_not_found[of ag i ex t1 t2] execute_not_approved[of ag i r ex t1 t2]
      conduct_raises[of ag q m t1]
    by blast
qed

theorem execute_error_handling_witness:
  "map_of (pending_requests (run (ResearchAgent_init (lit ''key'')) (take 2 scenario_ops)))
     (lit ''zz'') = None \<and>
   execute_approved_research (run (ResearchAgent_init (lit ''key'')) (take 2 scenario_ops))
     (lit ''zz'') (Raises (lit ''timeout'')) 30 40 =
     (Inl (ValueError (lit ''Request zz not found'')),
      run (ResearchAgent_init (lit ''key'')) (take 2 scenario_ops)) \<and>
   status_of (run (ResearchAgent_init (lit ''key'')) (take 1 scenario_ops)) (lit ''r1'') =
     Some PROPOSED \<and>
   execute_approved_research (run (ResearchAgent_init (lit ''key'')) (take 1 scenario_ops))
     (lit ''r1'') (Raises (lit ''timeout'')) 30 40 =
     (Inl (ValueError (lit ''Request r1 is not approved. Status: ResearchStatus.PROPOSED'')),
      run (ResearchAgent_init (lit ''key'')) (take 1 scenario_ops)) \<and>
   status_of (run (ResearchAgent_init (lit ''key'')) (take 2 scenario_ops)) (lit ''r1'') =
     Some APPROVED \<and>
   fst (execute_approved_research (run (ResearchAgent_init (lit ''key'')) (take 2 scenario_ops))
     (lit ''r1'') (Raises (lit ''timeout'')) 30 40) =
     Inr [(lit ''status'', PStr (lit ''failed'')), (lit ''request_id'', PStr (lit ''r1'')),
          (lit ''error'', PStr (lit ''timeout''))] \<and>
   (\<exists>r. map_of (pending_requests
            (snd (execute_approved_research
                    (run (ResearchAgent_init (lit ''key'')) (take 2 scenario_ops))
                    (lit ''r1'') (Raises (lit ''timeout'')) 30 40))) (lit ''r1'') =
          Some (r\<lparr>status := FAILED,
                    results := Some [(lit ''error'', PStr (lit ''timeout''))]\<rparr>) \<and>
        completed_at (r\<lparr>status := FAILED,
                    results := Some [(lit ''error'', PStr (lit ''timeout''))]\<rparr>) = None)"
proof -
  let ?a1 = "run (ResearchAgent_init (lit ''key'')) (take 1 scenario_ops)"
  let ?a2 = "run (ResearchAgent_init (lit ''key'')) (take 2 scenario_ops)"
  let ?ex = "Raises (lit ''timeout'')"
  have n: "map_of (pending_requests ?a2) (lit ''zz'') = None"
    by (simp add: scenario_defs)
  have p: "status_of ?a1 (lit ''r1'') = Some PROPOSED"
    by (simp add: scenario_defs)
  then obtain r1 where r1: "map_of (pending_requests ?a1) (lit ''r1'') = Some r1"
    "status r1 = PROPOSED"
    by (blast dest: status_of_lookup)
  have a: "status_of ?a2 (lit ''r1'') = Some APPROVED"
    by (simp add: scenario_defs)
  then obtain r2 where r2: "map_of (pending_requests ?a2) (lit ''r1'') = Some r2"
    "status r2 = APPROVED"
    by (blast dest: status_of_lookup)
  have c: "conduct_research ?a2 (refined_query r2) ?ex 30 = Inl (Exception (lit ''timeout''))"
    by (simp add: conduct_research_def)
  have l1: "lit ''Request '' @ lit ''zz'' @ lit '' not found'' = lit ''Request zz not found''"
    by (simp add: lit_def)
  have l2: "lit ''Request '' @ lit ''r1'' @ lit '' is not approved. Status: '' @
            str_status PROPOSED =
            lit ''Request r1 is not approved. Status: ResearchStatus.PROPOSED''"
    by (simp add: lit_def)
  note t1 = execute_error_handling[where ag = ?a2 and i = "lit ''zz''" and ex = ?ex
      and ?t1.0 = 30 and ?t2.0 = 40]
  note t2 = execute_error_handling[where ag = ?a1 and i = "lit ''r1''" and ex = ?ex
      and ?t1.0 = 30 and ?t2.0 = 40 and r = r1]
  note t3 = execute_error_handling[where key = "lit ''key''" and cs = "take 2 scenario_ops"
      and i = "lit ''r1''" and ex = ?ex and ?t1.0 = 30 and ?t2.0 = 40 and r = r2
      and e = "Exception (lit ''timeout'')"]
  from t1 n l1 have g1: "execute_approved_research ?a2 (lit ''zz'') ?ex 30 40 =
     (Inl (ValueError (lit ''Request zz not found'')), ?a2)"
    by simp
  from t2 r1 l2 have g2: "execute_approved_research ?a1 (lit ''r1'') ?ex 30 40 =
     (Inl (ValueError (lit ''Request r1 is not approved. Status: ResearchStatus.PROPOSED'')), ?a1)"
    by simp
  from t3 r2 c have g3: "execute_approved_research ?a2 (lit ''r1'') ?ex 30 40 =
        (Inr [(lit ''status'', PStr (lit ''failed'')), (lit ''request_id'', PStr (lit ''r1'')),
              (lit ''error'', PStr (str_error (Exception (lit ''timeout''))))],
         store_request ?a2 (lit ''r1'')
           (r2\<lparr>status := FAILED,
                results := Some [(lit ''error'', PStr (str_error (Exception (lit ''timeout''))))]\<rparr>))"
    and g4: "completed_at
        (r2\<lparr>status := FAILED,
             results := Some [(lit ''error'', PStr (str_error (Exception (lit ''timeout''))))]\<rparr>) = None"
    and g5: "map_of (pending_requests
                (snd (execute_approved_research ?a2 (lit ''r1'') ?ex 30 40))) (lit ''r1'') =
        Some (r2\<lparr>status := FAILED,
                  results := Some [(lit ''error'', PStr (str_error (Exception (lit ''timeout''))))]\<rparr>)"
    by blast+
  from g3 have g3': "fst (execute_approved_research ?a2 (lit ''r1'') ?ex 30 40) =
     Inr [(lit ''status'', PStr (lit ''failed'')), (lit ''request_id'', PStr (lit ''r1'')),
          (lit ''error'', PStr (lit ''timeout''))]"
    by simp
  from g4 g5 have g6: "\<exists>r. map_of (pending_requests
            (snd (execute_approved_research ?a2 (lit ''r1'') ?ex 30 40))) (lit ''r1'') =
          Some (r\<lparr>status := FAILED,
                    results := Some [(lit ''error'', PStr (lit ''timeout''))]\<rparr>) \<and>
        completed_at (r\<lparr>status := FAILED,
                    results := Some [(lit ''error'', PStr (lit ''timeout''))]\<rparr>) = None"
    by (intro exI[of _ r2]) simp
  from n g1 p g2 a g3' g6 show ?thesis by blast
qed




text \<open>
  C4. \<^verbatim>\<open>approve_research\<close> and \<^verbatim>\<open>deny_research\<close> are total: they return a flag and an agent,
  never an exception. The flag is false exactly when the identifier is not in the registry
  or the request is not proposed. On a request just proposed, approve returns true and a
  second approve false; deny on the approved request returns false and leaves the agent,
  and so the status approved, as it was; approve after a deny, and approve after an
  execute, return false.
\<close>

theorem approve_deny_flags:
  "(fst (approve_research ag i now) = False \<longleftrightarrow>
      map_of (pending_requests ag) i = None \<or>
      (\<exists>r. map_of (pending_requests ag) i = Some r \<and> status r \<noteq> PROPOSED)) \<and>
   (fst (deny_research ag i reason) = False \<longleftrightarrow>
      map_of (pending_requests ag) i = None \<or>
      (\<exists>r. map_of (pending_requests ag) i = Some r \<and> status r \<noteq> PROPOSED)) \<and>
   (propose_research ag q cx sg uid t0 = Inr (req, ag1) \<longrightarrow>
      fst (approve_research ag1 uid ta) = True \<and>
      fst (approve_research (snd (approve_research ag1 uid ta)) uid tb) = False \<and>
      deny_research (snd (approve_research ag1 uid ta)) uid reason =
        (False, snd (approve_research ag1 uid ta)) \<and>
      status_of (snd (approve_research ag1 uid ta)) uid = Some APPROVED \<and>
      fst (deny_research ag1 uid reason) = True \<and>
      fst (approve_research (snd (deny_research ag1 uid reason)) uid tb) = False \<and>
      fst (approve_research
             (snd (execute_approved_research (snd (approve_research ag1 uid ta)) uid ex t1 t2))
             uid tb) = False)"
proof -
  have a: "fst (approve_research ag i now) = False \<longleftrightarrow>
      map_of (pending_requests ag) i = None \<or>
      (\<exists>r. map_of (pending_requests ag) i = Some r \<and> status r \<noteq> PROPOSED)"
    by (auto simp: approve_research_def split: option.splits)
  have d: "fst (deny_research ag i reason) = False \<longleftrightarrow>
      map_of (pending_requests ag) i = None \<or>
      (\<exists>r. map_of (pending_requests ag) i = Some r \<and> status r \<noteq> PROPOSED)"
    by (auto simp: deny_research_def split: option.splits)
  have s: "propose_research ag q cx sg uid t0 = Inr (req, ag1) \<longrightarrow>
      fst (approve_research ag1 uid ta) = True \<and>
      fst (approve_research (snd (approve_research ag1 uid ta)) uid tb) = False \<and>
      deny_research (snd (approve_research ag1 uid ta)) uid reason =
        (False, snd (approve_research ag1 uid ta)) \<and>
      status_of (snd (approve_research ag1 uid ta)) uid = Some APPROVED \<and>
      fst (deny_research ag1 uid reason) = True \<and>
      fst (approve_research (snd (deny_research ag1 uid reason)) uid tb) = False \<and>
      fst (approve_research
             (snd (execute_approved_research (snd (approve_research ag1 uid ta)) uid ex t1 t2))
             uid tb) = False"
  proof
    assume "propose_research ag q cx sg uid t0 = Inr (req, ag1)"
    then have p: "status_of ag1 uid = Some PROPOSED" by (rule propose_status_after)
    let ?ag2 = "snd (approve_research ag1 uid ta)"
    from p have ap: "status_of ?ag2 uid = Some APPROVED" by (rule approve_status_after)
    from p have dn: "status_of (snd (deny_research ag1 uid reason)) uid = Some DENIED"
      by (rule deny_status_after)
    from execute_status_after[OF ap, of ex t1 t2]
    have ex: "status_of (snd (execute_approved_research ?ag2 uid ex t1 t2)) uid \<noteq> Some PROPOSED"
      by auto
    show "fst (approve_research ag1 uid ta) = True \<and>
      fst (approve_research ?ag2 uid tb) = False \<and>
      deny_research ?ag2 uid reason = (False, ?ag2) \<and>
      status_of ?ag2 uid = Some APPROVED \<and>
      fst (deny_research ag1 uid reason) = True \<and>
      fst (approve_research (snd (deny_research ag1 uid reason)) uid tb) = False \<and>
      fst (approve_research (snd (execute_approved_research ?ag2 uid ex t1 t2)) uid tb) = False"
      using p ap dn ex deny_guard[of ?ag2 uid reason]
      by (simp add: approve_flag deny_flag)
  qed
  from a d s show ?thesis by blast
qed

theorem approve_deny_flags_witness:
  "fst (approve_research (ResearchAgent_init (lit ''key'')) (lit ''r1'') 20) = False \<and>
   map_of (pending_requests (ResearchAgent_init (lit ''key''))) (lit ''r1'') = None \<and>
   fst (deny_research (run (ResearchAgent_init (lit ''key'')) (take 2 scenario_ops))
          (lit ''r1'') None) = False \<and>
   status_of (run (ResearchAgent_init (lit ''key'')) (take 2 scenario_ops)) (lit ''r1'') =
     Some APPROVED \<and>
   (\<exists>req ag1.
      propose_research (ResearchAgent_init (lit ''key'')) (lit ''pricing strategy'')
        (lit ''SaaS founder'') scenario_suggestions (lit ''r1'') 10 = Inr (req, ag1) \<and>
      fst (approve_research ag1 (lit ''r1'') 20) = True \<and>
      fst (approve_research (snd (approve_research ag1 (lit ''r1'') 20)) (lit ''r1'') 21) =
        False \<and>
      deny_research (snd (approve_research ag1 (lit ''r1'') 20)) (lit ''r1'') None =
        (False, snd (approve_research ag1 (lit ''r1'') 20)) \<and>
      status_of (snd (approve_research ag1 (lit ''r1'') 20)) (lit ''r1'') = Some APPROVED)"
proof -
  let ?a0 = "ResearchAgent_init (lit ''key'')"
  let ?a2 = "run ?a0 (take 2 scenario_ops)"
  have n: "map_of (pending_requests ?a0) (lit ''r1'') = None"
    by (simp add: ResearchAgent_init_def)
  have a: "status_of ?a2 (lit ''r1'') = Some APPROVED"
    by (simp add: scenario_defs)
  then have a': "\<exists>r. map_of (pending_requests ?a2) (lit ''r1'') = Some r \<and> status r \<noteq> PROPOSED"
    by (auto dest: status_of_lookup)
  obtain req ag1 where p: "propose_research ?a0 (lit ''pricing strategy'')
        (lit ''SaaS founder'') scenario_suggestions (lit ''r1'') 10 = Inr (req, ag1)"
    by (simp add: scenario_defs)
  note t0 = approve_deny_flags[where ag = ?a0 and i = "lit ''r1''" and now = 20 and q = "lit ''pricing strategy''"
      and cx = "lit ''SaaS founder''" and sg = scenario_suggestions and uid = "lit ''r1''"
      and ?t0.0 = 10 and req = req and ?ag1.0 = ag1 and ta = 20 and tb = 21 and reason = None]
  note t2 = approve_deny_flags[where ag = ?a2 and i = "lit ''r1''" and reason = None]
  from t0 n have g0: "fst (approve_research ?a0 (lit ''r1'') 20) = False" by blast
  from t2 a' have g2: "fst (deny_research ?a2 (lit ''r1'') None) = False" by blast
  from t0 p have g3: "fst (approve_research ag1 (lit ''r1'') 20) = True \<and>
      fst (approve_research (snd (approve_research ag1 (lit ''r1'') 20)) (lit ''r1'') 21) =
        False \<and>
      deny_research (snd (approve_research ag1 (lit ''r1'') 20)) (lit ''r1'') None =
        (False, snd (approve_research ag1 (lit ''r1'') 20)) \<and>
      status_of (snd (approve_research ag1 (lit ''r1'') 20)) (lit ''r1'') = Some APPROVED"
    by blast
  from g0 n g2 a p g3 show ?thesis by blast
qed

text \<open>
  C5. For any query, any context and any sequence of suggestion records that each carry an
  advisor and a suggestion text, \<^verbatim>\<open>propose_research\<close> returns: the new request has the
  generated identifier, the arguments as given, status proposed, the refined query and the
  cost estimate computed from it, and no approval time, completion time or results; it is
  what the registry then holds under its identifier, and no other entry of the registry
  changes.
\<close>

theorem propose_never_fails:
  assumes "list_all has_keys sg"
  shows "\<exists>req rq.
     propose_research ag q cx sg uid now = Inr (req, store_request ag uid req) \<and>
     req = \<lparr> id' = uid, query = q, original_context = cx, advisor_suggestions = sg,
             refined_query = Some rq, status = PROPOSED, created_at = now,
             approved_at = None, completed_at = None, results = None,
             cost_estimate =
               Some (float_mul (int_truediv (length (py_split rq) * 3) 1000)
                       (cost_per_1k_tokens ag)) \<rparr> \<and>
     refine_query_with_suggestions q cx sg = Inr rq \<and>
     map_of (pending_requests (store_request ag uid req)) uid = Some req \<and>
     (\<forall>k. k \<noteq> uid \<longrightarrow>
        map_of (pending_requests (store_request ag uid req)) k =
        map_of (pending_requests ag) k)"
proof -
  from refine_ok[OF assms] obtain rq where "refine_query_with_suggestions q cx sg = Inr rq"
    by blast
  then show ?thesis
    by (simp add: propose_research_def Let_def lookup_store)
qed

theorem propose_never_fails_witness:
  "list_all has_keys scenario_suggestions \<and>
   (\<exists>req ag1.
      propose_research (ResearchAgent_init (lit ''key'')) (lit ''pricing strategy'')
        (lit ''SaaS founder'') scenario_suggestions (lit ''r1'') 10 = Inr (req, ag1) \<and>
      status req = PROPOSED \<and> id' req = lit ''r1'' \<and>
      map_of (pending_requests ag1) (lit ''r1'') = Some req)"
proof -
  have h: "list_all has_keys scenario_suggestions"
    by (simp add: scenario_suggestions_def has_keys_def lit_def)
  from propose_never_fails[OF h, of "ResearchAgent_init (lit ''key'')" "lit ''pricing strategy''"
      "lit ''SaaS founder''" "lit ''r1''" 10] h
  show ?thesis by auto
qed

text \<open>
  C6. When a proposal succeeds and \<open>ts\<close> are the suggestion texts in input order, the refined
  query is the query, then the fixed heading line that introduces the list, then one bullet
  line per text in that order: a dash, a blank, the text, a line feed. No advisor enters
  it: any suggestions with the same texts, whoever the advisors, give the same refined
  query. Hence the refined query begins with the query and contains every suggestion text.
\<close>

theorem refined_query_form:
  assumes "propose_research ag q cx sg uid now = Inr (req, ag')"
    and "map (\<lambda>s. map_of s (lit ''suggestion'')) sg = map Some ts"
  shows "refined_query req = Some (q @ areas_heading @ bullets ts) \<and>
         bullets ts = concat (map (\<lambda>t. lit ''- '' @ t @ [10]) ts) \<and>
         (\<forall>t \<in> set ts. \<exists>a b. q @ areas_heading @ bullets ts = a @ t @ b) \<and>
         (map (\<lambda>s. map_of s (lit ''suggestion'')) sg2 = map Some ts \<and>
          propose_research ag2 q cx2 sg2 uid2 now2 = Inr (req2, ag2') \<longrightarrow>
            refined_query req2 = refined_query req)"
proof -
  from propose_refined[OF assms(1)] refine_eq[OF _ assms(2)]
  have a: "refined_query req = Some (q @ areas_heading @ bullets ts)" by auto
  have c: "\<forall>t \<in> set ts. \<exists>a b. q @ areas_heading @ bullets ts = a @ t @ b"
  proof
    fix t assume "t \<in> set ts"
    then obtain a b where "bullets ts = a @ t @ b" by (blast dest: bullets_contains)
    then have "q @ areas_heading @ bullets ts = (q @ areas_heading @ a) @ t @ b" by simp
    then show "\<exists>a b. q @ areas_heading @ bullets ts = a @ t @ b" by blast
  qed
  have d: "map (\<lambda>s. map_of s (lit ''suggestion'')) sg2 = map Some ts \<and>
          propose_research ag2 q cx2 sg2 uid2 now2 = Inr (req2, ag2') \<longrightarrow>
            refined_query req2 = refined_query req"
  proof
    assume h: "map (\<lambda>s. map_of s (lit ''suggestion'')) sg2 = map Some ts \<and>
          propose_research ag2 q cx2 sg2 uid2 now2 = Inr (req2, ag2')"
    from propose_refined[of ag2 q cx2 sg2 uid2 now2 req2 ag2'] refine_eq[of q cx2 sg2 _ ts] h
    have "refined_query req2 = Some (q @ areas_heading @ bullets ts)" by auto
    with a show "refined_query req2 = refined_query req" by simp
  qed
  from a c d bullets_concat[of ts] show ?thesis by blast
qed

theorem refined_query_form_witness:
  "\<exists>req ag1 req2 ag2.
     propose_research (ResearchAgent_init (lit ''key'')) (lit ''pricing strategy'')
       (lit ''SaaS founder'') scenario_suggestions (lit ''r1'') 10 = Inr (req, ag1) \<and>
     map (\<lambda>s. map_of s (lit ''suggestion'')) scenario_suggestions =
       map Some [lit ''check CAC payback''] \<and>
     refined_query req =
       Some (lit ''pricing strategy'' @ [10, 10] @
             lit ''Specific areas to investigate based on advisor input:'' @ [10] @
             lit ''- check CAC payback'' @ [10]) \<and>
     (\<exists>a b. the (refined_query req) = a @ lit ''check CAC payback'' @ b) \<and>
     propose_research (ResearchAgent_init (lit ''key'')) (lit ''pricing strategy'') []
       [[(lit ''advisor'', lit ''sam''), (lit ''suggestion'', lit ''check CAC payback'')]]
       (lit ''r2'') 11 = Inr (req2, ag2) \<and>
     refined_query req2 = refined_query req"
proof -
  let ?sg2 = "[[(lit ''advisor'', lit ''sam''), (lit ''suggestion'', lit ''check CAC payback'')]]"
  obtain req ag1 where p: "propose_research (ResearchAgent_init (lit ''key''))
       (lit ''pricing strategy'') (lit ''SaaS founder'') scenario_suggestions (lit ''r1'') 10 =
       Inr (req, ag1)"
    by (simp add: scenario_defs)
  obtain req2 ag2 where p2: "propose_research (ResearchAgent_init (lit ''key''))
       (lit ''pricing strategy'') [] ?sg2 (lit ''r2'') 11 = Inr (req2, ag2)"
    by (simp add: scenario_defs)
  have m: "map (\<lambda>s. map_of s (lit ''suggestion'')) scenario_suggestions =
       map Some [lit ''check CAC payback'']"
    by (simp add: scenario_suggestions_def lit_def)
  have m2: "map (\<lambda>s. map_of s (lit ''suggestion'')) ?sg2 = map Some [lit ''check CAC payback'']"
    by (simp add: lit_def)
  have e: "lit ''pricing strategy'' @ areas_heading @ bullets [lit ''check CAC payback''] =
       lit ''pricing strategy'' @ [10, 10] @
             lit ''Specific areas to investigate based on advisor input:'' @ [10] @
             lit ''- check CAC payback'' @ [10]"
    by (simp add: areas_heading_def lit_def)
  note t = refined_query_form[OF p m, where ?sg2.0 = ?sg2 and ?ag2.0 = "ResearchAgent_init (lit ''key'')"
      and ?cx2.0 = "[]" and ?uid2.0 = "lit ''r2''" and ?now2.0 = 11 and ?req2.0 = req2
      and ?ag2'.0 = ag2]
  from t e have g1: "refined_query req =
       Some (lit ''pricing strategy'' @ [10, 10] @
             lit ''Specific areas to investigate based on advisor input:'' @ [10] @
             lit ''- check CAC payback'' @ [10])" by simp
  from t have "\<exists>a b. lit ''pricing strategy'' @ areas_heading @ bullets [lit ''check CAC payback'']
      = a @ lit ''check CAC payback'' @ b" by simp
  with t have g2: "\<exists>a b. the (refined_query req) = a @ lit ''check CAC payback'' @ b" by simp
  from t m2 p2 have g3: "refined_query req2 = refined_query req" by blast
  from p m g1 g2 p2 g3 show ?thesis by blast
qed

text \<open>
  C7. For a proposal made on an agent reached from a new one, the cost estimate is what
  Python's arithmetic makes of (words * 3 / 1000) * 0.008, where words is the number of
  whitespace-separated words of the refined query, the count \<^verbatim>\<open>len(s.split())\<close> returns: the
  quotient of the two integers rounded to a double, times the double of the literal 0.008,
  rounded to a double. That double lies within \<open>2\<^sup>-\<^sup>5\<^sup>1\<close> of the exact product, relative to
  it.
\<close>

theorem cost_estimate_formula:
  "propose_research (run (ResearchAgent_init key) cs) q cx sg uid now = Inr (req, ag') \<longrightarrow>
   (\<exists>rq. refined_query req = Some rq \<and>
         word_count rq = length (py_split rq) \<and>
         cost_estimate req =
           Some (float_mul (int_truediv (word_count rq * 3) 1000) (round_double (8 / 1000))) \<and>
         \<bar>float_mul (int_truediv (word_count rq * 3) 1000) (round_double (8 / 1000)) -
            real (word_count rq * 3) / 1000 * (8 / 1000)\<bar>
           \<le> real (word_count rq * 3) / 1000 * (8 / 1000) / 2 ^ 51)"
  using propose_refined[of "run (ResearchAgent_init key) cs" q cx sg uid now req ag']
    cost_error
  by (auto simp: reachable_cost py_split_count)

theorem cost_estimate_formula_witness:
  "\<exists>req ag1.
     propose_research (run (ResearchAgent_init (lit ''key'')) []) (lit ''pricing strategy'')
       (lit ''SaaS founder'') scenario_suggestions (lit ''r1'') 10 = Inr (req, ag1) \<and>
     map_option word_count (refined_query req) = Some 14 \<and>
     round_double (8 / 1000) = 1152921504606847 / 144115188075855872 \<and>
     int_truediv (14 * 3) 1000 = 6052837899185947 / 144115188075855872 \<and>
     cost_estimate req = Some (3099053004383205 / 9223372036854775808)"
proof -
  obtain req ag1 where p: "propose_research (run (ResearchAgent_init (lit ''key'')) [])
       (lit ''pricing strategy'') (lit ''SaaS founder'') scenario_suggestions (lit ''r1'') 10 =
       Inr (req, ag1)"
    by (simp add: scenario_defs)
  then have r: "refined_query req =
       Some (lit ''pricing strategy'' @ [10, 10] @
             lit ''Specific areas to investigate based on advisor input:'' @ [10] @
             lit ''- check CAC payback'' @ [10])"
    by (auto simp: scenario_defs)
  have w: "word_count (lit ''pricing strategy'' @ [10, 10] @
             lit ''Specific areas to investigate based on advisor input:'' @ [10] @
             lit ''- check CAC payback'' @ [10]) = 14"
    by (simp add: word_count_def isspace_def lit_def)
  have c: "round_double (8 / 1000) = 1152921504606847 / 144115188075855872"
    by (simp add: round_double_def binade_def round_half_even_def compute_bitlen Let_def)
  have a: "int_truediv (14 * 3) 1000 = 6052837899185947 / 144115188075855872"
    by (simp add: int_truediv_def round_double_def binade_def round_half_even_def
          compute_bitlen Let_def)
  have m: "float_mul (6052837899185947 / 144115188075855872)
             (1152921504606847 / 144115188075855872) =
           3099053004383205 / 9223372036854775808"
    by (simp add: float_mul_def round_double_def binade_def round_half_even_def
          compute_bitlen Let_def)
  from cost_estimate_formula[of "lit ''key''" "[]" "lit ''pricing strategy''"
      "lit ''SaaS founder''" scenario_suggestions "lit ''r1''" 10 req ag1] p r w
  have "cost_estimate req =
      Some (float_mul (int_truediv (14 * 3) 1000) (round_double (8 / 1000)))"
    by auto
  also have "float_mul (int_truediv (14 * 3) 1000) (round_double (8 / 1000)) =
      3099053004383205 / 9223372036854775808"
    by (simp only: a c m)
  finally have v: "cost_estimate req = Some (3099053004383205 / 9223372036854775808)" .
  from r w have n: "map_option word_count (refined_query req) = Some 14" by simp
  from p n c a v show ?thesis by blast
qed

text \<open>
  C8. After \<^verbatim>\<open>approve_research\<close>, \<^verbatim>\<open>deny_research\<close> and \<^verbatim>\<open>execute_approved_research\<close>, and
  after each single write of the latter, the registry has the same identifiers in the same
  order, and each request is the one it was with at most \<^verbatim>\<open>status\<close>, \<^verbatim>\<open>approved_at\<close>,
  \<^verbatim>\<open>completed_at\<close> and \<^verbatim>\<open>results\<close> replaced; so \<^verbatim>\<open>id\<close>, \<^verbatim>\<open>query\<close>, \<^verbatim>\<open>original_context\<close>,
  \<^verbatim>\<open>advisor_suggestions\<close>, \<^verbatim>\<open>refined_query\<close>, \<^verbatim>\<open>created_at\<close> and \<^verbatim>\<open>cost_estimate\<close> keep the
  values that \<^verbatim>\<open>propose_research\<close> gave them.
\<close>

theorem proposal_fields_immutable:
  "frame_kept ag (snd (approve_research ag i now)) \<and>
   frame_kept ag (snd (deny_research ag i reason)) \<and>
   frame_kept ag (snd (execute_approved_research ag i ex t1 t2)) \<and>
   (\<forall>s \<in> set (snd (execute_steps ag i ex t1 t2)). frame_kept ag s) \<and>
   (frame_kept ag ag' \<and> map_of (pending_requests ag) k = Some r \<longrightarrow>
      (\<exists>r'. map_of (pending_requests ag') k = Some r' \<and> same_but_progress r r' \<and>
            id' r' = id' r \<and> query r' = query r \<and>
            original_context r' = original_context r \<and>
            advisor_suggestions r' = advisor_suggestions r \<and>
            refined_query r' = refined_query r \<and> created_at r' = created_at r \<and>
            cost_estimate r' = cost_estimate r)) \<and>
   (propose_research ag q cx sg uid now = Inr (req, ag2) \<longrightarrow>
      id' req = uid \<and> query req = q \<and> original_context req = cx \<and>
      advisor_suggestions req = sg \<and> created_at req = now \<and>
      refined_query req \<noteq> None \<and> cost_estimate req \<noteq> None)"
proof -
  have l: "frame_kept ag ag' \<and> map_of (pending_requests ag) k = Some r \<longrightarrow>
      (\<exists>r'. map_of (pending_requests ag') k = Some r' \<and> same_but_progress r r' \<and>
            id' r' = id' r \<and> query r' = query r \<and>
            original_context r' = original_context r \<and>
            advisor_suggestions r' = advisor_suggestions r \<and>
            refined_query r' = refined_query r \<and> created_at r' = created_at r \<and>
            cost_estimate r' = cost_estimate r)"
  proof
    assume "frame_kept ag ag' \<and> map_of (pending_requests ag) k = Some r"
    then obtain r' where r': "map_of (pending_requests ag') k = Some r'" "same_but_progress r r'"
      by (blast dest: frame_lookup)
    from same_fields[OF r'(2)] r' show "\<exists>r'. map_of (pending_requests ag') k = Some r' \<and> same_but_progress r r' \<and>
            id' r' = id' r \<and> query r' = query r \<and>
            original_context r' = original_context r \<and>
            advisor_suggestions r' = advisor_suggestions r \<and>
            refined_query r' = refined_query r \<and> created_at r' = created_at r \<and>
            cost_estimate r' = cost_estimate r"
      by blast
  qed
  have p: "propose_research ag q cx sg uid now = Inr (req, ag2) \<longrightarrow>
      id' req = uid \<and> query req = q \<and> original_context req = cx \<and>
      advisor_suggestions req = sg \<and> created_at req = now \<and>
      refined_query req \<noteq> None \<and> cost_estimate req \<noteq> None"
  proof
    assume h: "propose_research ag q cx sg uid now = Inr (req, ag2)"
    from propose_refined[OF h] obtain rq c where
      "refined_query req = Some rq" "cost_estimate req = Some c" "original_context req = cx"
      by blast
    moreover from h have "id' req = uid \<and> query req = q \<and> advisor_suggestions req = sg \<and>
        created_at req = now"
      by (auto simp: propose_research_def Let_def split: sum.splits)
    ultimately show "id' req = uid \<and> query req = q \<and> original_context req = cx \<and>
      advisor_suggestions req = sg \<and> created_at req = now \<and>
      refined_query req \<noteq> None \<and> cost_estimate req \<noteq> None"
      by simp
  qed
  from l p approve_frame[of ag i now] deny_frame[of ag i reason] execute_frame[of ag i ex t1 t2]
    execute_steps_frame[of _ ag i ex t1 t2]
  show ?thesis by blast
qed

theorem proposal_fields_immutable_witness:
  "frame_kept (run (ResearchAgent_init (lit ''key'')) (take 2 scenario_ops))
     (snd (execute_approved_research (run (ResearchAgent_init (lit ''key'')) (take 2 scenario_ops))
        (lit ''r1'') (Ok200 (lit ''RESEARCH BRIEF...'') None) 30 40)) \<and>
   status_of (run (ResearchAgent_init (lit ''key'')) (take 2 scenario_ops)) (lit ''r1'') =
     Some APPROVED \<and>
   length (snd (execute_steps (run (ResearchAgent_init (lit ''key'')) (take 2 scenario_ops))
        (lit ''r1'') (Ok200 (lit ''RESEARCH BRIEF...'') None) 30 40)) = 2 \<and>
   list_all2 frame_kept
     (replicate 2 (run (ResearchAgent_init (lit ''key'')) (take 2 scenario_ops)))
     (snd (execute_steps (run (ResearchAgent_init (lit ''key'')) (take 2 scenario_ops))
        (lit ''r1'') (Ok200 (lit ''RESEARCH BRIEF...'') None) 30 40)) \<and>
   (\<exists>r r'. map_of (pending_requests (run (ResearchAgent_init (lit ''key'')) (take 2 scenario_ops)))
             (lit ''r1'') = Some r \<and>
           map_of (pending_requests
             (snd (execute_approved_research
                (run (ResearchAgent_init (lit ''key'')) (take 2 scenario_ops))
                (lit ''r1'') (Ok200 (lit ''RESEARCH BRIEF...'') None) 30 40))) (lit ''r1'') =
             Some r' \<and>
           status r' = COMPLETED \<and> query r' = query r \<and> query r = lit ''pricing strategy'' \<and>
           cost_estimate r' = cost_estimate r) \<and>
   (\<exists>req ag2.
      propose_research (ResearchAgent_init (lit ''key'')) (lit ''pricing strategy'')
        (lit ''SaaS founder'') scenario_suggestions (lit ''r1'') 10 = Inr (req, ag2) \<and>
      query req = lit ''pricing strategy'' \<and> created_at req = 10)"
proof -
  let ?a2 = "run (ResearchAgent_init (lit ''key'')) (take 2 scenario_ops)"
  let ?ex = "Ok200 (lit ''RESEARCH BRIEF...'') None"
  let ?a3 = "snd (execute_approved_research ?a2 (lit ''r1'') ?ex 30 40)"
  note t = proposal_fields_immutable[where ag = ?a2 and i = "lit ''r1''" and ex = ?ex
      and ?t1.0 = 30 and ?t2.0 = 40 and ag' = ?a3 and k = "lit ''r1''"]
  have a: "status_of ?a2 (lit ''r1'') = Some APPROVED"
    by (simp add: scenario_defs)
  have q: "map_option query (map_of (pending_requests ?a2) (lit ''r1'')) =
      Some (lit ''pricing strategy'')"
    by (simp add: scenario_defs)
  have c: "status_of ?a3 (lit ''r1'') = Some COMPLETED"
    by (simp add: scenario_defs map_of_dict_set)
  from a obtain r where r: "map_of (pending_requests ?a2) (lit ''r1'') = Some r"
    by (blast dest: status_of_lookup)
  from t have f: "frame_kept ?a2 ?a3" by blast
  with t[where r = r] r obtain r' where r': "map_of (pending_requests ?a3) (lit ''r1'') = Some r'"
    "query r' = query r" "cost_estimate r' = cost_estimate r"
    by blast
  from c r' have s: "status r' = COMPLETED" by (simp add: status_of_def)
  from q r have qq: "query r = lit ''pricing strategy''" by simp
  have n: "length (snd (execute_steps ?a2 (lit ''r1'') ?ex 30 40)) = 2"
    by (simp add: scenario_defs)
  from t have "\<forall>s \<in> set (snd (execute_steps ?a2 (lit ''r1'') ?ex 30 40)). frame_kept ?a2 s"
    by blast
  with n have l: "list_all2 frame_kept (replicate 2 ?a2)
     (snd (execute_steps ?a2 (lit ''r1'') ?ex 30 40))"
    by (auto simp: list_all2_conv_all_nth)
  obtain req ag2 where p: "propose_research (ResearchAgent_init (lit ''key''))
        (lit ''pricing strategy'') (lit ''SaaS founder'') scenario_suggestions (lit ''r1'') 10 =
        Inr (req, ag2)"
    by (simp add: scenario_defs)
  from proposal_fields_immutable[where ag = "ResearchAgent_init (lit ''key'')"
      and q = "lit ''pricing strategy''" and cx = "lit ''SaaS founder''"
      and sg = scenario_suggestions and uid = "lit ''r1''" and now = 10 and req = req
      and ?ag2.0 = ag2] p
  have pf: "query req = lit ''pricing strategy'' \<and> created_at req = 10" by blast
  from f a n l r r' s qq p pf show ?thesis by blast
qed

text \<open>
  C9. \<^verbatim>\<open>get_pending_requests\<close> hands back the agent it was given, so a second call returns
  the same sequence as the first; the sequence is the registry's values of status proposed,
  in registry order. In a state reached from a new agent, a request is in the sequence
  exactly if it is registered under some identifier and proposed, and the sequence has one
  entry per such identifier.
\<close>

theorem pending_requests_query:
  "snd (get_pending_requests ag) = ag \<and>
   fst (get_pending_requests (snd (get_pending_requests ag))) = fst (get_pending_requests ag) \<and>
   fst (get_pending_requests ag) =
     map snd (filter (\<lambda>(k, r). status r = PROPOSED) (pending_requests ag)) \<and>
   (r \<in> set (fst (get_pending_requests (run (ResearchAgent_init key) cs))) \<longleftrightarrow>
      (\<exists>k. fst (get_request_status (run (ResearchAgent_init key) cs) k) = Some r \<and>
           status r = PROPOSED)) \<and>
   length (fst (get_pending_requests (run (ResearchAgent_init key) cs))) =
     card {k. \<exists>r. fst (get_request_status (run (ResearchAgent_init key) cs) k) = Some r \<and>
                  status r = PROPOSED}"
proof -
  let ?ag = "run (ResearchAgent_init key) cs"
  have a: "fst (get_pending_requests ag) =
     map snd (filter (\<lambda>(k, r). status r = PROPOSED) (pending_requests ag))"
    by (simp add: get_pending_requests_def dict_values_def filter_map comp_def case_prod_unfold)
  have b: "r \<in> set (fst (get_pending_requests ?ag)) \<longleftrightarrow>
      (\<exists>k. fst (get_request_status ?ag k) = Some r \<and> status r = PROPOSED)"
    using values_member(1)[OF reachable_distinct, of r key cs]
      values_member(2)[of "pending_requests ?ag" r]
    by (auto simp: get_pending_requests_def get_request_status_def)
  have c: "length (fst (get_pending_requests ?ag)) =
     card {k. \<exists>r. fst (get_request_status ?ag k) = Some r \<and> status r = PROPOSED}"
    using count_selected[OF reachable_distinct, of "\<lambda>r. status r = PROPOSED" key cs]
    by (simp add: get_pending_requests_def get_request_status_def)
  show ?thesis using a b c by (simp add: get_pending_requests_def)
qed

theorem pending_requests_query_witness:
  "fst (get_pending_requests (run (ResearchAgent_init (lit ''key'')) (take 4 scenario_ops))) =
     map snd (filter (\<lambda>(k, r). status r = PROPOSED)
       (pending_requests (run (ResearchAgent_init (lit ''key'')) (take 4 scenario_ops)))) \<and>
   length (fst (get_pending_requests
              (run (ResearchAgent_init (lit ''key'')) (take 4 scenario_ops)))) = 1"
proof -
  have "length (fst (get_pending_requests
                 (run (ResearchAgent_init (lit ''key'')) (take 4 scenario_ops)))) = 1"
    by (simp add: scenario_defs get_pending_requests_def dict_values_def)
  with pending_requests_query[of "run (ResearchAgent_init (lit ''key'')) (take 4 scenario_ops)"]
  show ?thesis by blast
qed

text \<open>
  C10. Two proposals with the same query and the same suggestions, whatever their contexts,
  generated identifiers, clock readings and (reachable) agents, either raise the same
  exception or produce requests with equal refined queries and equal cost estimates; the
  context is stored as \<^verbatim>\<open>original_context\<close>.
\<close>

theorem context_does_not_influence:
  "map_sum id (\<lambda>(r, a). (refined_query r, cost_estimate r))
     (propose_research (run (ResearchAgent_init key1) cs1) q cx1 sg uid1 now1) =
   map_sum id (\<lambda>(r, a). (refined_query r, cost_estimate r))
     (propose_research (run (ResearchAgent_init key2) cs2) q cx2 sg uid2 now2) \<and>
   (propose_research ag q cx sg uid now = Inr (req, ag') \<longrightarrow> original_context req = cx)"
proof -
  have "refine_query_with_suggestions q cx1 sg = refine_query_with_suggestions q cx2 sg"
    by (simp add: refine_query_with_suggestions_def)
  then have a: "map_sum id (\<lambda>(r, a). (refined_query r, cost_estimate r))
     (propose_research (run (ResearchAgent_init key1) cs1) q cx1 sg uid1 now1) =
   map_sum id (\<lambda>(r, a). (refined_query r, cost_estimate r))
     (propose_research (run (ResearchAgent_init key2) cs2) q cx2 sg uid2 now2)"
    by (simp add: propose_research_def Let_def reachable_cost split: sum.splits)
  from a propose_refined[of ag q cx sg uid now req ag'] show ?thesis by blast
qed

theorem context_does_not_influence_witness:
  "\<exists>r1 a1 r2 a2.
     propose_research (run (ResearchAgent_init (lit ''key'')) []) (lit ''pricing strategy'')
       (lit ''SaaS founder'') scenario_suggestions (lit ''r1'') 10 = Inr (r1, a1) \<and>
     propose_research (run (ResearchAgent_init (lit ''key'')) (take 2 scenario_ops))
       (lit ''pricing strategy'') (lit ''hardware startup'') scenario_suggestions (lit ''r3'') 50 =
       Inr (r2, a2) \<and>
     refined_query r1 = refined_query r2 \<and> cost_estimate r1 = cost_estimate r2 \<and>
     original_context r1 = lit ''SaaS founder'' \<and>
     original_context r2 = lit ''hardware startup''"
proof -
  let ?A1 = "run (ResearchAgent_init (lit ''key'')) []"
  let ?A2 = "run (ResearchAgent_init (lit ''key'')) (take 2 scenario_ops)"
  obtain r1 a1 where p1: "propose_research ?A1 (lit ''pricing strategy'')
       (lit ''SaaS founder'') scenario_suggestions (lit ''r1'') 10 = Inr (r1, a1)"
    by (simp add: scenario_defs)
  obtain r2 a2 where p2: "propose_research ?A2
       (lit ''pricing strategy'') (lit ''hardware startup'') scenario_suggestions (lit ''r3'') 50 =
       Inr (r2, a2)"
    by (simp add: propose_research_def refine_query_with_suggestions_def Let_def
          scenario_suggestions_def lit_def)
  note t1 = context_does_not_influence[where ?key1.0 = "lit ''key''" and ?cs1.0 = "[]"
      and ?key2.0 = "lit ''key''" and ?cs2.0 = "take 2 scenario_ops"
      and q = "lit ''pricing strategy''" and ?cx1.0 = "lit ''SaaS founder''"
      and ?cx2.0 = "lit ''hardware startup''" and sg = scenario_suggestions
      and ?uid1.0 = "lit ''r1''" and ?uid2.0 = "lit ''r3''" and ?now1.0 = 10 and ?now2.0 = 50
      and ag = ?A1 and cx = "lit ''SaaS founder''" and uid = "lit ''r1''" and now = 10
      and req = r1 and ag' = a1]
  note t2 = context_does_not_influence[where q = "lit ''pricing strategy''"
      and sg = scenario_suggestions
      and ag = ?A2 and cx = "lit ''hardware startup''" and uid = "lit ''r3''" and now = 50
      and req = r2 and ag' = a2]
  from t1 p1 p2 have e: "refined_query r1 = refined_query r2 \<and> cost_estimate r1 = cost_estimate r2"
    by simp
  from t1 p1 have c1: "original_context r1 = lit ''SaaS founder''" by blast
  from t2 p2 have c2: "original_context r2 = lit ''hardware startup''" by blast
  from p1 p2 e c1 c2 show ?thesis by blast
qed

end
